theory Spec2Isabelle
  imports Main "HOL-Library.Word"
begin

unbundle bit_operations_syntax

section \<open>Library functions the program calls\<close>

text \<open>
  The program is a Go \<^verbatim>\<open>net/http\<close> handler that answers the WebSocket upgrade
  request and then parses one frame from the hijacked connection. It calls
  \<^verbatim>\<open>crypto/sha1\<close>, \<^verbatim>\<open>encoding/base64\<close>, \<^verbatim>\<open>encoding/binary\<close>, \<^verbatim>\<open>bufio\<close>
  and \<^verbatim>\<open>net/http\<close> of the Go standard library. This section models the part of
  each that the program uses; the program itself follows in the next section.
\<close>

subsection \<open>crypto/sha1\<close>

text \<open>
  SHA-1 as FIPS 180-4 defines it, which is what \<^verbatim>\<open>sha1.New\<close>, \<^verbatim>\<open>io.WriteString\<close>
  and \<^verbatim>\<open>Sum(nil)\<close> compute together. Octets and 32-bit words are naturals here, with
  the reduction modulo \<open>2 ^ 32\<close> written out, so that a digest of a concrete message
  is computed by rewriting with numerals.
\<close>

definition add32 :: "nat \<Rightarrow> nat \<Rightarrow> nat" where
  "add32 a b = (a + b) mod 2 ^ 32"

definition not32 :: "nat \<Rightarrow> nat" where
  "not32 a = 0xFFFFFFFF - a mod 2 ^ 32"

definition rotl32 :: "nat \<Rightarrow> nat \<Rightarrow> nat" where
  "rotl32 n x = (x * 2 ^ n) mod 2 ^ 32 OR x div 2 ^ (32 - n)"

fun be_nat :: "nat list \<Rightarrow> nat" where
  "be_nat [] = 0"
| "be_nat (b # bs) = b * 256 ^ length bs + be_nat bs"

definition be32_bytes :: "nat \<Rightarrow> nat list" where
  "be32_bytes n = map (\<lambda>i. (n div 256 ^ i) mod 256) [3, 2, 1, 0]"

definition be64_bytes :: "nat \<Rightarrow> nat list" where
  "be64_bytes n = map (\<lambda>i. (n div 256 ^ i) mod 256) [7, 6, 5, 4, 3, 2, 1, 0]"

text \<open>Padding: the bit 1, zeros up to 56 modulo 64 octets, the bit length on 64 bits.\<close>

definition sha1_pad :: "nat list \<Rightarrow> nat list" where
  "sha1_pad m = m @ [0x80] @ replicate ((119 - length m mod 64) mod 64) 0
                  @ be64_bytes ((8 * length m) mod 2 ^ 64)"

fun words32 :: "nat list \<Rightarrow> nat list" where
  "words32 (a # b # c # d # r) = be_nat [a, b, c, d] # words32 r"
| "words32 _ = []"

text \<open>The message schedule: sixteen words of the block extended to eighty.\<close>

function expand :: "nat list \<Rightarrow> nat list" where
  "expand ws =
     (let t = length ws
      in if 80 \<le> t then ws
         else expand (ws @ [rotl32 1 (ws ! (t - 3) XOR ws ! (t - 8) XOR ws ! (t - 14)
                                       XOR ws ! (t - 16))]))"
  by pat_completeness auto
termination
  by (relation "measure (\<lambda>ws. 80 - length ws)") auto

declare expand.simps [simp del]

definition sha1_f :: "nat \<Rightarrow> nat \<Rightarrow> nat \<Rightarrow> nat \<Rightarrow> nat" where
  "sha1_f t b c d =
     (if t < 20 then (b AND c) OR (not32 b AND d)
      else if t < 40 then b XOR c XOR d
      else if t < 60 then (b AND c) OR (b AND d) OR (c AND d)
      else b XOR c XOR d)"

definition sha1_k :: "nat \<Rightarrow> nat" where
  "sha1_k t = (if t < 20 then 0x5A827999 else if t < 40 then 0x6ED9EBA1
               else if t < 60 then 0x8F1BBCDC else 0xCA62C1D6)"

type_synonym sha1_state = "nat \<times> nat \<times> nat \<times> nat \<times> nat"

fun rounds :: "nat \<Rightarrow> nat list \<Rightarrow> sha1_state \<Rightarrow> sha1_state" where
  "rounds t [] s = s"
| "rounds t (w # ws) (a, b, c, d, e) =
     rounds (t + 1) ws
       (add32 (add32 (add32 (add32 (rotl32 5 a) (sha1_f t b c d)) e) (sha1_k t)) w,
        a, rotl32 30 b, c, d)"

definition block :: "sha1_state \<Rightarrow> nat list \<Rightarrow> sha1_state" where
  "block h p =
     (case h of (h0, h1, h2, h3, h4) \<Rightarrow>
        (case rounds 0 (expand (words32 p)) h of (a, b, c, d, e) \<Rightarrow>
           (add32 h0 a, add32 h1 b, add32 h2 c, add32 h3 d, add32 h4 e)))"

function blocks :: "sha1_state \<Rightarrow> nat list \<Rightarrow> sha1_state" where
  "blocks h p = (if length p < 64 then h else blocks (block h (take 64 p)) (drop 64 p))"
  by pat_completeness auto
termination
  by (relation "measure (\<lambda>(h, p). length p)") auto

declare blocks.simps [simp del]

definition sha1 :: "nat list \<Rightarrow> nat list" where
  "sha1 m =
     (case blocks (0x67452301, 0xEFCDAB89, 0x98BADCFE, 0x10325476, 0xC3D2E1F0) (sha1_pad m)
      of (h0, h1, h2, h3, h4) \<Rightarrow> concat (map be32_bytes [h0, h1, h2, h3, h4]))"

text \<open>A Go string is its bytes; \<^verbatim>\<open>io.WriteString\<close> hands them to the hash unchanged.\<close>

definition bytes_of :: "string \<Rightarrow> nat list" where
  "bytes_of s = map of_char s"

subsection \<open>encoding/base64\<close>

text \<open>
  \<^verbatim>\<open>base64.StdEncoding.EncodeToString\<close>: the alphabet of RFC 4648 section 4 (with
  \<open>+\<close> and \<open>/\<close>, not the URL-safe one), three octets to four characters, and \<open>=\<close>
  padding for a last group of one or two octets.
\<close>

definition encodeStd :: string where
  "encodeStd = ''ABCDEFGHIJKLMNOPQRSTUVWXYZabcdefghijklmnopqrstuvwxyz0123456789+/''"

definition b64_char :: "nat \<Rightarrow> char" where
  "b64_char n = encodeStd ! (n mod 64)"

fun EncodeToString :: "nat list \<Rightarrow> string" where
  "EncodeToString (a # b # c # r) =
     (let v = a * 65536 + b * 256 + c
      in b64_char (v div 262144) # b64_char (v div 4096) # b64_char (v div 64) # b64_char v
         # EncodeToString r)"
| "EncodeToString [a, b] =
     (let v = a * 65536 + b * 256
      in [b64_char (v div 262144), b64_char (v div 4096), b64_char (v div 64), CHR ''=''])"
| "EncodeToString [a] =
     (let v = a * 65536
      in [b64_char (v div 262144), b64_char (v div 4096), CHR ''='', CHR ''=''])"
| "EncodeToString [] = []"

subsection \<open>net/http: headers and the response writer\<close>

text \<open>
  \<^verbatim>\<open>http.Header\<close> is \<^verbatim>\<open>map[string][]string\<close>. \<^verbatim>\<open>Get\<close> returns the first value
  stored under a name and the empty string when there is none, \<^verbatim>\<open>Values\<close> all of
  them, \<^verbatim>\<open>Set\<close> replaces them by one value, \<^verbatim>\<open>Del\<close> removes them. \<^verbatim>\<open>net/http\<close>
  brings every name to its canonical form on both sides, when it parses the request and
  in each of these methods; the model keys the map by the name as the program writes it.
\<close>

type_synonym Header = "string \<rightharpoonup> string list"

definition Get :: "Header \<Rightarrow> string \<Rightarrow> string" where
  "Get h k = (case h k of None \<Rightarrow> [] | Some [] \<Rightarrow> [] | Some (v # vs) \<Rightarrow> v)"

definition Values :: "Header \<Rightarrow> string \<Rightarrow> string list" where
  "Values h k = (case h k of None \<Rightarrow> [] | Some vs \<Rightarrow> vs)"

definition Set :: "Header \<Rightarrow> string \<Rightarrow> string \<Rightarrow> Header" where
  "Set h k v = h(k \<mapsto> [v])"

definition Del :: "Header \<Rightarrow> string \<Rightarrow> Header" where
  "Del h k = h(k := None)"

text \<open>
  The state of an \<^verbatim>\<open>http.ResponseWriter\<close>: the status line once \<^verbatim>\<open>WriteHeader\<close>
  has been called (a second call is ignored, and a handler that returns without calling
  it leaves the status to the server), the header map, and the body written so far.
\<close>

record ResponseWriter =
  status :: "nat option"
  header :: Header
  body :: string

definition newResponse :: ResponseWriter where
  "newResponse = \<lparr>status = None, header = Map.empty, body = []\<rparr>"

definition WriteHeader :: "ResponseWriter \<Rightarrow> nat \<Rightarrow> ResponseWriter" where
  "WriteHeader w code = (case status w of None \<Rightarrow> w\<lparr>status := Some code\<rparr> | Some c \<Rightarrow> w)"

definition StatusBadRequest :: nat where "StatusBadRequest = 400"
definition StatusSwitchingProtocols :: nat where "StatusSwitchingProtocols = 101"
definition StatusNotImplemented :: nat where "StatusNotImplemented = 501"
definition StatusInternalServerError :: nat where "StatusInternalServerError = 500"

definition StatusText :: "nat \<Rightarrow> string" where
  "StatusText code =
     (if code = 400 then ''Bad Request''
      else if code = 501 then ''Not Implemented''
      else if code = 500 then ''Internal Server Error''
      else if code = 101 then ''Switching Protocols''
      else [])"

text \<open>\<^verbatim>\<open>http.Error\<close>: a plain-text reply with the given status and message.\<close>

definition Error :: "ResponseWriter \<Rightarrow> string \<Rightarrow> nat \<Rightarrow> ResponseWriter" where
  "Error w msg code =
     (let h = Set (Set (Del (header w) ''Content-Length'')
                       ''Content-Type'' ''text/plain; charset=utf-8'')
                  ''X-Content-Type-Options'' ''nosniff'';
          w' = WriteHeader (w\<lparr>header := h\<rparr>) code
      in w'\<lparr>body := body w' @ msg @ [CHR 0x0A]\<rparr>)"

text \<open>
  What the writer offers for taking over the connection: \<open>None\<close> when it is not an
  \<^verbatim>\<open>http.Hijacker\<close>; otherwise what \<^verbatim>\<open>Hijack\<close> returns, an error or the buffered
  reader of the connection (the type \<open>Reader\<close> of the next subsection).
\<close>

type_synonym byte = "8 word"

subsection \<open>bufio\<close>

text \<open>
  The errors a read can return: \<^verbatim>\<open>io.EOF\<close>, \<^verbatim>\<open>io.ErrNoProgress\<close>, and any other
  error of the connection (a timeout, a reset).
\<close>

datatype ioerr = EOF | ErrNoProgress | ErrConn

text \<open>
  The reader underneath (the field \<^verbatim>\<open>rd\<close>, here the connection) is given by what its
  successive calls of \<^verbatim>\<open>Read\<close> will return: some bytes, possibly none, and possibly an
  error with them. A call into a slice of \<open>k\<close> bytes returns at most \<open>k\<close> of them and
  leaves the others for the next call. After the last of these calls the connection is
  at its end. A call blocks until it has a result, so a connection that stays silent for
  ever is one on which \<^verbatim>\<open>parseFrame\<close> does not return; such a connection is left
  out.
\<close>

type_synonym Source = "(byte list \<times> ioerr option) list"

fun rd_Read :: "nat \<Rightarrow> Source \<Rightarrow> (byte list \<times> ioerr option) \<times> Source" where
  "rd_Read k [] = (([], Some EOF), [])"
| "rd_Read k ((bs, err) # rd) =
     (if length bs \<le> k then ((bs, err), rd)
      else ((take k bs, None), (drop k bs, err) # rd))"

text \<open>
  A \<^verbatim>\<open>bufio.Reader\<close>: the bytes read ahead and not yet handed over
  (\<^verbatim>\<open>buf[r:w]\<close>), the error kept for a later call (\<^verbatim>\<open>err\<close>), the reader
  underneath, and the size of the buffer (\<open>bufsize\<close> for \<^verbatim>\<open>len(buf)\<close>, which \<^verbatim>\<open>bufio\<close> makes 16
  at least; 4096 for the reader of an HTTP connection).
\<close>

record Reader =
  buffered :: "byte list"
  pending :: "ioerr option"
  source :: Source
  bufsize :: nat

text \<open>\<^verbatim>\<open>bufio.NewReader\<close>, on a reader underneath.\<close>

definition NewReader :: "Source \<Rightarrow> Reader" where
  "NewReader rd = \<lparr>buffered = [], pending = None, source = rd, bufsize = 4096\<rparr>"

text \<open>
  \<^verbatim>\<open>fill\<close> reads once into the free part of the buffer, and again, up to 100 times,
  as long as a read returns no byte and no error; then it gives up with
  \<^verbatim>\<open>io.ErrNoProgress\<close>. It is called on an empty buffer only.
\<close>

function fill_loop :: "nat \<Rightarrow> Reader \<Rightarrow> Reader" where
  "fill_loop i b =
     (if i = 0 then b\<lparr>pending := Some ErrNoProgress\<rparr>
      else
        case rd_Read (bufsize b - length (buffered b)) (source b) of
          ((bs, err), rd) \<Rightarrow>
            let b = b\<lparr>buffered := buffered b @ bs, source := rd\<rparr> in
            case err of
              Some e \<Rightarrow> b\<lparr>pending := Some e\<rparr>
            | None \<Rightarrow> if 0 < length bs then b else fill_loop (i - 1) b)"
  by pat_completeness auto
termination
  by (relation "measure (\<lambda>(i, b). i)") auto

declare fill_loop.simps [simp del]

definition fill :: "Reader \<Rightarrow> Reader" where
  "fill b = fill_loop 100 b"

text \<open>
  \<^verbatim>\<open>ReadByte\<close>: the next byte of the buffer; on an empty buffer the kept error, if
  there is one, and otherwise \<^verbatim>\<open>fill\<close> and the same again. The loop ends because
  \<^verbatim>\<open>fill\<close> leaves a byte in the buffer or an error behind.
\<close>

function ReadByte :: "Reader \<Rightarrow> (byte \<times> ioerr option) \<times> Reader" where
  "ReadByte b =
     (case buffered b of
        c # bs \<Rightarrow> ((c, None), b\<lparr>buffered := bs\<rparr>)
      | [] \<Rightarrow>
          (case pending b of
             Some err \<Rightarrow> ((0, Some err), b\<lparr>pending := None\<rparr>)
           | None \<Rightarrow> ReadByte (fill b)))"
  by pat_completeness auto
termination
proof (relation "measure (\<lambda>b. if buffered b \<noteq> [] then 0 else if pending b \<noteq> None then 1 else 2)")
  show "wf (measure (\<lambda>b. if buffered b \<noteq> [] then 0 else if pending b \<noteq> None then 1 else 2))"
    by simp
next
  fix b :: Reader
  assume e: "buffered b = []" and p: "pending b = None"
  have "buffered (fill_loop i c) \<noteq> [] \<or> pending (fill_loop i c) \<noteq> None" for i c
  proof (induction i c rule: fill_loop.induct)
    case (1 i c)
    then show ?case
      by (subst fill_loop.simps, subst (2) fill_loop.simps)
         (auto simp: Let_def split: prod.splits option.splits)
  qed
  then have "buffered (fill b) \<noteq> [] \<or> pending (fill b) \<noteq> None"
    by (simp add: fill_def)
  with e p
  show "(fill b, b)
          \<in> measure (\<lambda>b. if buffered b \<noteq> [] then 0 else if pending b \<noteq> None then 1 else 2)"
    by auto
qed

declare ReadByte.simps [simp del]

text \<open>
  \<^verbatim>\<open>Read(p)\<close> hands over bytes of the buffer when it holds some, as many as fit into
  \<open>p\<close>. On an empty buffer it returns the kept error, if there is one, and otherwise
  reads underneath once: straight into \<open>p\<close> when \<open>p\<close> is as large as the buffer, and
  else into the buffer, from which it then hands over. So it returns the bytes of at
  most one read underneath, and fewer than \<open>len(p)\<close> whenever fewer are at hand. On an
  empty \<open>p\<close> it returns 0, with the kept error when the buffer is empty. The first
  argument is the slice before the call, the first component of the result the slice
  after it.
\<close>

definition Read :: "byte list \<Rightarrow> Reader \<Rightarrow> (byte list \<times> nat \<times> ioerr option) \<times> Reader" where
  "Read p b =
     (if length p = 0 then
        (if 0 < length (buffered b) then ((p, 0, None), b)
         else ((p, 0, pending b), b\<lparr>pending := None\<rparr>))
      else if buffered b = [] then
        (case pending b of
           Some err \<Rightarrow> ((p, 0, Some err), b\<lparr>pending := None\<rparr>)
         | None \<Rightarrow>
             if bufsize b \<le> length p then
               (case rd_Read (length p) (source b) of
                  ((bs, err), rd) \<Rightarrow>
                    ((bs @ drop (length bs) p, length bs, err), b\<lparr>source := rd\<rparr>))
             else
               (case rd_Read (bufsize b) (source b) of
                  ((bs, err), rd) \<Rightarrow>
                    if length bs = 0 then ((p, 0, err), b\<lparr>source := rd\<rparr>)
                    else
                      let n = min (length p) (length bs)
                      in ((take n bs @ drop n p, n, None),
                          b\<lparr>buffered := drop n bs, pending := err, source := rd\<rparr>)))
      else
        let n = min (length p) (length (buffered b))
        in ((take n (buffered b) @ drop n p, n, None), b\<lparr>buffered := drop n (buffered b)\<rparr>))"

datatype Hijack = HijackFailed | Hijacked Reader

subsection \<open>encoding/binary and the runtime\<close>

text \<open>
  A call either returns or panics. The two panics of this program are an index out of
  range (index, length) and a slice length that \<^verbatim>\<open>make\<close> refuses.
\<close>

datatype panic = IndexOutOfRange nat nat | MakesliceLenOutOfRange

datatype 'a outcome = Returns 'a | Panics panic

text \<open>
  \<^verbatim>\<open>binary.BigEndian.Uint64(b)\<close> begins with the bounds check \<^verbatim>\<open>_ = b[7]\<close> and then
  combines \<open>b[0]\<close>, the most significant byte, to \<open>b[7]\<close>.
\<close>

definition Uint64 :: "byte list \<Rightarrow> 64 word outcome" where
  "Uint64 b =
     (if length b \<le> 7 then Panics (IndexOutOfRange 7 (length b))
      else Returns (ucast (b ! 7) OR push_bit 8 (ucast (b ! 6)) OR push_bit 16 (ucast (b ! 5))
                    OR push_bit 24 (ucast (b ! 4)) OR push_bit 32 (ucast (b ! 3))
                    OR push_bit 40 (ucast (b ! 2)) OR push_bit 48 (ucast (b ! 1))
                    OR push_bit 56 (ucast (b ! 0))))"

text \<open>
  \<^verbatim>\<open>make([]byte, n)\<close> for a length computed at run time, which is the runtime's
  \<^verbatim>\<open>makeslice\<close>: a zeroed slice, or a panic when the length is beyond what the
  runtime allocates. That bound depends on the platform and is the parameter \<open>lim\<close>;
  it is below \<open>2 ^ 63\<close> wherever \<^verbatim>\<open>int\<close> has 64 bits, which the model assumes of
  \<^verbatim>\<open>int\<close>.
\<close>

definition makeslice :: "nat \<Rightarrow> 64 word \<Rightarrow> byte list outcome" where
  "makeslice lim n = (if lim < unat n then Panics MakesliceLenOutOfRange
                      else Returns (replicate (unat n) 0))"

section \<open>The program\<close>

text \<open>
  The repository holds three successive versions of one file: \<^verbatim>\<open>main.go\<close>, whose
  handler does the handshake alone; a second, whose handler also takes over the
  connection and reads one byte of it; and a third, which parses a whole frame with
  \<^verbatim>\<open>parseFrame\<close>. The first and the third are modelled; line numbers are those of
  the third. Logging and the deferred \<^verbatim>\<open>conn.Close\<close> leave no trace in what the
  properties below are about and are left out.
\<close>

subsection \<open>The handshake of main.go\<close>

definition acceptMagicGUID :: string where
  "acceptMagicGUID = ''258EAFA5-E914-47DA-95CA-C5AB0DC85B11''"

text \<open>
  \<^verbatim>\<open>handler\<close> of \<^verbatim>\<open>main.go\<close>, the first version of the program: the handshake
  alone. The name carries a suffix because the later version below has the same name.
\<close>

definition handler_main :: "ResponseWriter \<Rightarrow> Header \<Rightarrow> ResponseWriter" where
  "handler_main w r =
     (if Get r ''Upgrade'' \<noteq> ''websocket'' \<and> Get r ''Connection'' \<noteq> ''Upgrade''
      then WriteHeader w StatusBadRequest
      else
        let subprotocols = Values r ''Sec-WebSocket-Protocol'' in
        if 0 < length subprotocols
        then w\<lparr>header := Set (header w) ''Sec-WebSocket-Protocol'' (subprotocols ! 0)\<rparr>
        else
          let key = Get r ''Sec-WebSocket-Key'';
              key = key @ acceptMagicGUID;
              accept = EncodeToString (sha1 (bytes_of key));
              w = w\<lparr>header := Set (header w) ''Upgrade'' ''websocket''\<rparr>;
              w = w\<lparr>header := Set (header w) ''Connection'' ''Upgrade''\<rparr>;
              w = w\<lparr>header := Set (header w) ''Sec-WebSocket-Accept'' accept\<rparr>
          in WriteHeader w StatusSwitchingProtocols)"

subsection \<open>Frames\<close>

type_synonym opcode = byte

definition opcodeContinuation :: opcode where "opcodeContinuation = 0x00"
definition opcodeText :: opcode where "opcodeText = 0x01"
definition opcodeBinary :: opcode where "opcodeBinary = 0x02"
definition opcodeClose :: opcode where "opcodeClose = 0x08"
definition opcodePing :: opcode where "opcodePing = 0x09"
definition opcodePong :: opcode where "opcodePong = 0x0A"

text \<open>
  The struct \<^verbatim>\<open>frame\<close>. Its field \<^verbatim>\<open>length\<close> is \<open>frame_length\<close> here, the name
  \<open>length\<close> being that of lists. The struct has no field for a masking key.
\<close>

record frame =
  final :: bool
  opcode :: opcode
  frame_length :: "64 word"
  payload :: "byte list"

text \<open>The zero value \<^verbatim>\<open>frame{}\<close>.\<close>

definition frame_zero :: frame where
  "frame_zero = \<lparr>final = False, opcode = 0, frame_length = 0, payload = []\<rparr>"

text \<open>
  The two errors \<^verbatim>\<open>parseFrame\<close> builds: \<^verbatim>\<open>"read failed: %w"\<close> around the reader's
  error, and \<^verbatim>\<open>"read failed: expected %d bytes, got %d"\<close>.
\<close>

datatype error = ReadFailed ioerr | ReadFailedExpected nat nat

text \<open>
  \<^verbatim>\<open>parseFrame\<close> is one function of four parts in sequence, each of which may return
  from it. A part is modelled by a function that gives either the values the next part
  uses (\<open>Next\<close>) or what \<^verbatim>\<open>parseFrame\<close> returns there (\<open>Exit\<close>), together with the
  reader after it.
\<close>

datatype 'a step = Next 'a | Exit "(frame \<times> error option) outcome"

text \<open>The extended length, lines 210 to 226 of the last version.\<close>

definition parseFrame_length :: "64 word \<Rightarrow> Reader \<Rightarrow> 64 word step \<times> Reader" where
  "parseFrame_length length0 buf =
     (if length0 = 126 then
        (case Read (replicate 2 0) buf of
           ((b, n, Some err), buf') \<Rightarrow> (Exit (Returns (frame_zero, Some (ReadFailed err))), buf')
         | ((b, n, None), buf') \<Rightarrow>
             if n \<noteq> 2 then (Exit (Returns (frame_zero, Some (ReadFailedExpected 2 n))), buf')
             else (case Uint64 b of
                     Panics p \<Rightarrow> (Exit (Panics p), buf')
                   | Returns v \<Rightarrow> (Next v, buf')))
      else if length0 = 127 then
        (case Read (replicate 8 0) buf of
           ((b, n, Some err), buf') \<Rightarrow> (Exit (Returns (frame_zero, Some (ReadFailed err))), buf')
         | ((b, n, None), buf') \<Rightarrow>
             if n \<noteq> 8 then (Exit (Returns (frame_zero, Some (ReadFailedExpected 8 n))), buf')
             else (case Uint64 b of
                     Panics p \<Rightarrow> (Exit (Panics p), buf')
                   | Returns v \<Rightarrow> (Next v, buf')))
      else (Next length0, buf))"

text \<open>
  The masking key, lines 228 to 236; \<open>[]\<close> is the nil slice, and \<open>msk\<close> is the
  variable \<^verbatim>\<open>mask\<close> (a name HOL has taken).
\<close>

definition parseFrame_mask :: "byte \<Rightarrow> Reader \<Rightarrow> byte list step \<times> Reader" where
  "parseFrame_mask msk buf =
     (if msk = 0x80 then
        (case Read (replicate 4 0) buf of
           ((maskingKey, n, Some err), buf') \<Rightarrow>
             (Exit (Returns (frame_zero, Some (ReadFailed err))), buf')
         | ((maskingKey, n, None), buf') \<Rightarrow>
             if n \<noteq> 4 then (Exit (Returns (frame_zero, Some (ReadFailedExpected 4 n))), buf')
             else (Next maskingKey, buf'))
      else (Next [], buf))"

text \<open>The payload, lines 238 to 243.\<close>

definition parseFrame_payload :: "nat \<Rightarrow> 64 word \<Rightarrow> Reader \<Rightarrow> byte list step \<times> Reader" where
  "parseFrame_payload lim len buf =
     (case makeslice lim len of
        Panics p \<Rightarrow> (Exit (Panics p), buf)
      | Returns payload0 \<Rightarrow>
          (case Read payload0 buf of
             ((payload', n, Some err), buf') \<Rightarrow>
               (Exit (Returns (frame_zero, Some (ReadFailed err))), buf')
           | ((payload', n, None), buf') \<Rightarrow>
               if int n \<noteq> sint len
               then (Exit (Returns (frame_zero, Some (ReadFailedExpected (unat len) n))), buf')
               else (Next payload', buf')))"

text \<open>\<^verbatim>\<open>parseFrame\<close>, lines 195 to 253.\<close>

definition parseFrame :: "nat \<Rightarrow> Reader \<Rightarrow> (frame \<times> error option) outcome \<times> Reader" where
  "parseFrame lim buf =
     (case ReadByte buf of
        ((b, Some err), buf) \<Rightarrow> (Returns (frame_zero, Some (ReadFailed err)), buf)
      | ((b, None), buf) \<Rightarrow>
     let fin = b AND 0x80;
         op = b AND 0x0F
     in
     case ReadByte buf of
        ((b, Some err), buf) \<Rightarrow> (Returns (frame_zero, Some (ReadFailed err)), buf)
      | ((b, None), buf) \<Rightarrow>
     let msk = b AND 0x80;
         len = ucast (b AND 0x7F)
     in
     case parseFrame_length len buf of
        (Exit r, buf) \<Rightarrow> (r, buf)
      | (Next len, buf) \<Rightarrow>
     case parseFrame_mask msk buf of
        (Exit r, buf) \<Rightarrow> (r, buf)
      | (Next maskingKey, buf) \<Rightarrow>
     case parseFrame_payload lim len buf of
        (Exit r, buf) \<Rightarrow> (r, buf)
      | (Next payload', buf) \<Rightarrow>
     (Returns (\<lparr>final = (fin = 0x80), opcode = op, frame_length = len, payload = payload'\<rparr>,
               None), buf))"

subsection \<open>The handler of the last version\<close>

text \<open>
  \<^verbatim>\<open>handler\<close>, lines 128 to 175. The result is the response writer as the handler
  leaves it, and what follows the handshake: the frame it prints when \<^verbatim>\<open>parseFrame\<close>
  returns one, nothing otherwise, or the panic of \<^verbatim>\<open>parseFrame\<close>.
\<close>

definition handler ::
  "nat \<Rightarrow> ResponseWriter \<Rightarrow> Header \<Rightarrow> Hijack option \<Rightarrow> ResponseWriter \<times> frame option outcome"
where
  "handler lim w r hijacker =
     (if Get r ''Upgrade'' \<noteq> ''websocket'' \<and> Get r ''Connection'' \<noteq> ''Upgrade''
      then (Error w (StatusText StatusBadRequest) StatusBadRequest, Returns None)
      else
        let subprotocols = Values r ''Sec-WebSocket-Protocol'' in
        if 0 < length subprotocols
        then (w\<lparr>header := Set (header w) ''Sec-WebSocket-Protocol'' (subprotocols ! 0)\<rparr>,
              Returns None)
        else
          case hijacker of
            None \<Rightarrow> (Error w (StatusText StatusNotImplemented) StatusNotImplemented, Returns None)
          | Some hj \<Rightarrow>
          let key = Get r ''Sec-WebSocket-Key'';
              key = key @ acceptMagicGUID;
              accept = EncodeToString (sha1 (bytes_of key));
              w = w\<lparr>header := Set (header w) ''Upgrade'' ''websocket''\<rparr>;
              w = w\<lparr>header := Set (header w) ''Connection'' ''Upgrade''\<rparr>;
              w = w\<lparr>header := Set (header w) ''Sec-WebSocket-Accept'' accept\<rparr>;
              w = WriteHeader w StatusSwitchingProtocols
          in
          case hj of
            HijackFailed \<Rightarrow>
              (Error w (StatusText StatusInternalServerError) StatusInternalServerError,
               Returns None)
          | Hijacked buf \<Rightarrow>
              (case fst (parseFrame lim buf) of
                 Panics p \<Rightarrow> (w, Panics p)
               | Returns (f, Some err) \<Rightarrow> (w, Returns None)
               | Returns (f, None) \<Rightarrow> (w, Returns (Some f))))"

section \<open>Notions the properties are stated with\<close>

subsection \<open>The bytes a reader still has to give\<close>

text \<open>
  All the bytes a reader will hand over from now on, in order: those of its buffer,
  then those of the reads underneath that are still to come. How they are cut into
  reads is not part of it.
\<close>

definition stream_of :: "Reader \<Rightarrow> byte list" where
  "stream_of b = buffered b @ concat (map fst (source b))"

subsection \<open>The layout of a frame on the wire\<close>

text \<open>
  The specification describes a frame by its second byte \<open>b1\<close> and the bytes \<open>rest\<close>
  that follow it: bit 7 of \<open>b1\<close> is the mask flag and bits 0 to 6 the base length; a
  base length of 126 announces two more bytes of length and 127 eight more, read as a
  big-endian unsigned integer; four bytes of masking key follow when the mask flag is
  set, and then as many bytes of payload as the length says. The definitions of this
  subsection follow those words; they are not taken from the program.
\<close>

definition big_endian :: "byte list \<Rightarrow> nat" where
  "big_endian bs = be_nat (map unat bs)"

definition wire_base_length :: "byte \<Rightarrow> nat" where
  "wire_base_length b1 = unat (b1 AND 0x7F)"

definition wire_mask_bit :: "byte \<Rightarrow> bool" where
  "wire_mask_bit b1 = (b1 AND 0x80 = 0x80)"

definition wire_ext_size :: "byte \<Rightarrow> nat" where
  "wire_ext_size b1 =
     (if wire_base_length b1 = 126 then 2 else if wire_base_length b1 = 127 then 8 else 0)"

definition wire_key_size :: "byte \<Rightarrow> nat" where
  "wire_key_size b1 = (if wire_mask_bit b1 then 4 else 0)"

definition wire_length :: "byte \<Rightarrow> byte list \<Rightarrow> nat" where
  "wire_length b1 rest =
     (if wire_base_length b1 = 126 then big_endian (take 2 rest)
      else if wire_base_length b1 = 127 then big_endian (take 8 rest)
      else wire_base_length b1)"

text \<open>
  Unmasking as the specification words it: the payload byte at index \<open>i\<close> is XOR-ed
  with the byte of the masking key at index \<open>i mod 4\<close>.
\<close>

fun spec_unmask_from :: "nat \<Rightarrow> byte list \<Rightarrow> byte list \<Rightarrow> byte list" where
  "spec_unmask_from i key [] = []"
| "spec_unmask_from i key (b # bs) = (b XOR key ! (i mod 4)) # spec_unmask_from (i + 1) key bs"

definition spec_unmask :: "byte list \<Rightarrow> byte list \<Rightarrow> byte list" where
  "spec_unmask key raw = spec_unmask_from 0 key raw"

subsection \<open>Errors\<close>

text \<open>
  The specification's \<open>Truncated\<close>: a read ended before the bytes a step needs. In
  the program that is the return of the zero frame with one of the two
  \<^verbatim>\<open>read failed\<close> errors: the one around the error of the reader (the end of the
  connection, or its failure), or the one with the byte counts, fewer bytes obtained
  than expected. The program has no other error; in particular it has none for a
  malformed frame.
\<close>

definition spec_Truncated :: "(frame \<times> error option) outcome \<Rightarrow> bool" where
  "spec_Truncated r =
     (case r of
        Returns (f, Some (ReadFailed e)) \<Rightarrow> f = frame_zero
      | Returns (f, Some (ReadFailedExpected k n)) \<Rightarrow> f = frame_zero \<and> n < k
      | _ \<Rightarrow> False)"

section \<open>Properties of the reader\<close>

text \<open>
  A read hands over the next bytes of the stream, in order and none twice, whatever the
  cuts of the reads underneath; what a reader has in its buffer it hands over at once.
\<close>

lemma rd_Read_spec:
  assumes "rd_Read k rd = ((bs, err), rd')"
  shows "length bs \<le> k" and "concat (map fst rd) = bs @ concat (map fst rd')"
  using assms by (cases rd; auto split: if_splits)+

lemma stream_of_fill_loop: "stream_of (fill_loop i b) = stream_of b"
proof (induction i b rule: fill_loop.induct)
  case (1 i b)
  show ?case
  proof (cases "i = 0")
    case True
    then show ?thesis
      by (subst fill_loop.simps) (simp add: stream_of_def)
  next
    case False
    obtain bs err rd where r: "rd_Read (bufsize b - length (buffered b)) (source b) = ((bs, err), rd)"
      by (metis prod.exhaust)
    note s = rd_Read_spec(2) [OF r]
    show ?thesis
    proof (cases err)
      case (Some e)
      with False r s show ?thesis
        by (subst fill_loop.simps) (simp add: stream_of_def)
    next
      case None
      show ?thesis
      proof (cases "0 < length bs")
        case True
        with False None r s show ?thesis
          by (subst fill_loop.simps) (simp add: stream_of_def)
      next
        case F2: False
        from "1.IH" [OF False r [symmetric] refl refl None F2]
        have "stream_of (fill_loop (i - 1) (b\<lparr>buffered := buffered b @ bs, source := rd\<rparr>))
                = stream_of (b\<lparr>buffered := buffered b @ bs, source := rd\<rparr>)"
          by simp
        with False None F2 r s show ?thesis
          by (subst fill_loop.simps) (simp add: stream_of_def)
      qed
    qed
  qed
qed

lemma stream_of_fill: "stream_of (fill b) = stream_of b"
  by (simp add: fill_def stream_of_fill_loop)

lemma ReadByte_spec:
  "ReadByte b = ((c, e), b') \<Longrightarrow>
     (e = None \<longrightarrow> stream_of b = c # stream_of b') \<and> (e \<noteq> None \<longrightarrow> stream_of b' = stream_of b)"
proof (induction b rule: ReadByte.induct)
  case (1 b)
  show ?case
  proof (cases "buffered b")
    case (Cons x xs)
    with "1.prems" show ?thesis
      by (subst (asm) ReadByte.simps) (auto simp: stream_of_def)
  next
    case Nil
    show ?thesis
    proof (cases "pending b")
      case (Some err)
      with Nil "1.prems" show ?thesis
        by (subst (asm) ReadByte.simps) (auto simp: stream_of_def)
    next
      case None
      with Nil "1.prems" have "ReadByte (fill b) = ((c, e), b')"
        by (subst (asm) ReadByte.simps) simp
      from "1.IH" [OF Nil None this] show ?thesis
        by (simp add: stream_of_fill)
    qed
  qed
qed

lemma ReadByte_buffered:
  "buffered b = c # bs \<Longrightarrow> ReadByte b = ((c, None), b\<lparr>buffered := bs\<rparr>)"
  by (subst ReadByte.simps) simp

text \<open>A reader with an empty buffer whose next read underneath brings bytes that fit.\<close>

lemma ReadByte_fills:
  assumes "buffered b = []" and "pending b = None" and "source b = (c # bs, None) # rd"
    and "length (c # bs) \<le> bufsize b"
  shows "ReadByte b = ((c, None), b\<lparr>buffered := bs, source := rd\<rparr>)"
  using assms
  by (subst ReadByte.simps, subst ReadByte.simps)
     (simp add: fill_def fill_loop.simps [of 100])

text \<open>
  \<^verbatim>\<open>Read\<close> returns a count \<open>n\<close> of at most \<open>len(p)\<close>, with the next \<open>n\<close> bytes of
  the stream in front of \<open>p\<close>.
\<close>

lemma Read_spec:
  assumes "Read p b = ((p', n, e), b')"
  shows "n \<le> length p" and "n \<le> length (stream_of b)"
    and "p' = take n (stream_of b) @ drop n p"
    and "stream_of b' = drop n (stream_of b)"
proof -
  have "n \<le> length p \<and> n \<le> length (stream_of b)
        \<and> p' = take n (stream_of b) @ drop n p \<and> stream_of b' = drop n (stream_of b)"
  proof (cases "length p = 0")
    case True
    with assms show ?thesis
      by (auto simp: Read_def stream_of_def split: if_splits)
  next
    case pn: False
    show ?thesis
    proof (cases "buffered b = []")
      case False
      with pn assms show ?thesis
        by (auto simp: Read_def stream_of_def Let_def min_def)
    next
      case be: True
      show ?thesis
      proof (cases "pending b")
        case (Some err)
        with pn be assms show ?thesis
          by (auto simp: Read_def stream_of_def)
      next
        case None
        show ?thesis
        proof (cases "bufsize b \<le> length p")
          case True
          obtain bs err rd where r: "rd_Read (length p) (source b) = ((bs, err), rd)"
            by (metis prod.exhaust)
          note s = rd_Read_spec [OF r]
          from pn be None True r assms s show ?thesis
            by (auto simp: Read_def stream_of_def)
        next
          case False
          obtain bs err rd where r: "rd_Read (bufsize b) (source b) = ((bs, err), rd)"
            by (metis prod.exhaust)
          note s = rd_Read_spec [OF r]
          from pn be None False r assms s show ?thesis
            by (auto simp: Read_def stream_of_def Let_def min_def split: if_splits)
        qed
      qed
    qed
  qed
  then show "n \<le> length p" and "n \<le> length (stream_of b)"
    and "p' = take n (stream_of b) @ drop n p"
    and "stream_of b' = drop n (stream_of b)"
    by simp_all
qed

lemma Read_buffered:
  assumes "0 < length p" and "length p \<le> length (buffered b)"
  shows "Read p b = ((take (length p) (buffered b), length p, None),
                     b\<lparr>buffered := drop (length p) (buffered b)\<rparr>)"
  using assms by (auto simp: Read_def Let_def min_def)

lemma Read_buffered_short:
  assumes "buffered b \<noteq> []" and "length (buffered b) < length p"
  shows "Read p b = ((buffered b @ drop (length (buffered b)) p, length (buffered b), None),
                     b\<lparr>buffered := []\<rparr>)"
  using assms by (auto simp: Read_def Let_def min_def)

lemma Read_empty_slice:
  assumes "buffered b \<noteq> [] \<or> pending b = None"
  shows "Read [] b = (([], 0, None), b)"
  using assms by (auto simp: Read_def)

lemma Read_replicate_buffered:
  assumes "k \<le> length (buffered r)" and "0 < k \<or> buffered r \<noteq> [] \<or> pending r = None"
  shows "Read (replicate k 0) r = ((take k (buffered r), k, None), r\<lparr>buffered := drop k (buffered r)\<rparr>)"
proof (cases "k = 0")
  case True
  with assms show ?thesis
    by (simp add: Read_empty_slice)
next
  case False
  with assms(1) Read_buffered [of "replicate k 0" r] show ?thesis
    by simp
qed

section \<open>Properties of the frame parser\<close>

subsection \<open>Bytes and 64-bit words\<close>

lemma unat_byte_less: "unat (b :: 8 word) < 256"
  using unsigned_less [of b, where 'a = nat] by simp

lemma unat_ucast_byte: "unat (ucast (b :: 8 word) :: 64 word) = unat b"
proof -
  have "unat b < 2 ^ 64" using unat_byte_less [of b] by simp
  then show ?thesis by (simp add: unsigned_ucast_eq take_bit_nat_eq_self)
qed

lemma unat_push_byte:
  assumes "k \<le> 56"
  shows "unat (push_bit k (ucast (b :: 8 word)) :: 64 word) = unat b * 2 ^ k"
proof -
  have "unat b * 2 ^ k < 2 ^ 8 * 2 ^ k"
    using unat_byte_less [of b] by simp
  also have "\<dots> = (2::nat) ^ (8 + k)" by (simp add: power_add)
  also have "\<dots> \<le> 2 ^ 64" using assms by (intro power_increasing) auto
  finally have "unat b * 2 ^ k < 2 ^ 64" .
  moreover have "unat (push_bit k (ucast b) :: 64 word)
                   = take_bit 64 (push_bit k (unat (ucast b :: 64 word)))"
    using unsigned_push_bit_eq [of k "ucast b :: 64 word", where 'a = nat] by simp
  ultimately show ?thesis
    by (simp add: unat_ucast_byte push_bit_eq_mult take_bit_nat_eq_self)
qed

lemma or_push_add:
  fixes x :: "64 word"
  assumes "x < 2 ^ k"
  shows "x OR push_bit k y = x + push_bit k y"
proof -
  have "\<not> bit x n \<or> \<not> bit (push_bit k y) n" for n
  proof (cases "n < k")
    case True then show ?thesis by (simp add: bit_push_bit_iff)
  next
    case False
    with assms have "\<not> bit x n"
      by (metis bit_take_bit_iff less_mask_eq take_bit_eq_mask)
    then show ?thesis by simp
  qed
  then show ?thesis by (simp add: disjunctive_add)
qed

lemma unat_or_push_byte:
  fixes x :: "64 word"
  assumes "unat x < 2 ^ k" and "k \<le> 56"
  shows "unat (x OR push_bit k (ucast (b :: 8 word))) = unat x + unat b * 2 ^ k"
proof -
  have "uint x < 2 ^ k"
    using assms(1)
    by (metis nat_less_iff unat_eq_nat_uint uint_ge_0 of_nat_numeral of_nat_power nat_int)
  moreover have "k < size x"
    using assms(2) by (simp add: word_size)
  ultimately have "x < 2 ^ k"
    using word_2p_lem [of k x] by blast
  then have "x OR push_bit k (ucast b) = x + push_bit k (ucast b)"
    by (rule or_push_add)
  moreover have "unat x + unat b * 2 ^ k < 2 ^ 64"
  proof -
    have "unat x + unat b * 2 ^ k < 2 ^ k + 255 * 2 ^ k"
      using assms(1) unat_byte_less [of b] by (intro add_less_le_mono mult_right_mono) auto
    also have "\<dots> = 2 ^ (k + 8)" by (simp add: power_add)
    also have "\<dots> \<le> (2::nat) ^ 64" using assms(2) by (intro power_increasing) auto
    finally show ?thesis .
  qed
  ultimately show ?thesis
    using assms(2) by (simp add: unat_add_lem [THEN iffD1] unat_push_byte)
qed

lemma unat_or_push_byte_less:
  fixes x :: "64 word"
  assumes "unat x < 2 ^ k" and "k \<le> 56"
  shows "unat (x OR push_bit k (ucast (b :: 8 word))) < 2 ^ (k + 8)"
proof -
  have "unat x + unat b * 2 ^ k < 2 ^ k + 255 * 2 ^ k"
    using assms(1) unat_byte_less [of b] by (intro add_less_le_mono mult_right_mono) auto
  also have "\<dots> = 2 ^ (k + 8)" by (simp add: power_add)
  finally show ?thesis using assms by (simp add: unat_or_push_byte)
qed

text \<open>
  \<^verbatim>\<open>binary.BigEndian.Uint64\<close> on eight bytes is their value as a big-endian unsigned
  integer.
\<close>

lemma Uint64_big_endian:
  "Uint64 [b0, b1, b2, b3, b4, b5, b6, b7] = Returns v \<Longrightarrow>
     unat v = be_nat (map unat [b0, b1, b2, b3, b4, b5, b6, b7])"
proof -
  assume "Uint64 [b0, b1, b2, b3, b4, b5, b6, b7] = Returns v"
  then have v: "v = ((((((ucast b7 OR push_bit 8 (ucast b6)) OR push_bit 16 (ucast b5))
                  OR push_bit 24 (ucast b4)) OR push_bit 32 (ucast b3))
                  OR push_bit 40 (ucast b2)) OR push_bit 48 (ucast b1))
                  OR push_bit 56 (ucast b0)"
    by (simp add: Uint64_def or.assoc)
  define x0 :: "64 word" where "x0 = ucast b7"
  define x1 where "x1 = x0 OR push_bit 8 (ucast b6)"
  define x2 where "x2 = x1 OR push_bit 16 (ucast b5)"
  define x3 where "x3 = x2 OR push_bit 24 (ucast b4)"
  define x4 where "x4 = x3 OR push_bit 32 (ucast b3)"
  define x5 where "x5 = x4 OR push_bit 40 (ucast b2)"
  define x6 where "x6 = x5 OR push_bit 48 (ucast b1)"
  have l0: "unat x0 < 2 ^ 8" and e0: "unat x0 = unat b7"
    using unat_byte_less [of b7] by (simp_all add: x0_def unat_ucast_byte)
  have l1: "unat x1 < 2 ^ 16" and e1: "unat x1 = unat x0 + unat b6 * 2 ^ 8"
    using unat_or_push_byte_less [OF l0, of b6] unat_or_push_byte [OF l0, of b6]
    by (simp_all add: x1_def)
  have l2: "unat x2 < 2 ^ 24" and e2: "unat x2 = unat x1 + unat b5 * 2 ^ 16"
    using unat_or_push_byte_less [OF l1, of b5] unat_or_push_byte [OF l1, of b5]
    by (simp_all add: x2_def)
  have l3: "unat x3 < 2 ^ 32" and e3: "unat x3 = unat x2 + unat b4 * 2 ^ 24"
    using unat_or_push_byte_less [OF l2, of b4] unat_or_push_byte [OF l2, of b4]
    by (simp_all add: x3_def)
  have l4: "unat x4 < 2 ^ 40" and e4: "unat x4 = unat x3 + unat b3 * 2 ^ 32"
    using unat_or_push_byte_less [OF l3, of b3] unat_or_push_byte [OF l3, of b3]
    by (simp_all add: x4_def)
  have l5: "unat x5 < 2 ^ 48" and e5: "unat x5 = unat x4 + unat b2 * 2 ^ 40"
    using unat_or_push_byte_less [OF l4, of b2] unat_or_push_byte [OF l4, of b2]
    by (simp_all add: x5_def)
  have l6: "unat x6 < 2 ^ 56" and e6: "unat x6 = unat x5 + unat b1 * 2 ^ 48"
    using unat_or_push_byte_less [OF l5, of b1] unat_or_push_byte [OF l5, of b1]
    by (simp_all add: x6_def)
  have e7: "unat v = unat x6 + unat b0 * 2 ^ 56"
    using unat_or_push_byte [OF l6, of b0]
    by (simp add: v x6_def x5_def x4_def x3_def x2_def x1_def x0_def)
  show ?thesis
    by (simp add: e7 e6 e5 e4 e3 e2 e1 e0)
qed

lemma Uint64_8:
  assumes "length b = 8"
  shows "Uint64 b = Returns (word_of_nat (big_endian b))" and "big_endian b < 2 ^ 64"
proof -
  from assms obtain b0 b1 b2 b3 b4 b5 b6 b7 where b: "b = [b0, b1, b2, b3, b4, b5, b6, b7]"
    by (auto simp: length_Suc_conv numeral_eq_Suc)
  obtain v where v: "Uint64 b = Returns v"
    using assms by (simp add: Uint64_def)
  with b have u: "unat v = big_endian b"
    using Uint64_big_endian [of b0 b1 b2 b3 b4 b5 b6 b7 v] by (simp add: big_endian_def)
  then have "word_of_nat (big_endian b) = v"
    by (metis of_nat_unat ucast_id)
  with v show "Uint64 b = Returns (word_of_nat (big_endian b))" by simp
  from u unsigned_less [of v, where 'a = nat] show "big_endian b < 2 ^ 64" by simp
qed

text \<open>The conversion \<^verbatim>\<open>int(length)\<close> of line 241.\<close>

lemma sint_small:
  fixes len :: "64 word"
  assumes "unat len < 2 ^ 63"
  shows "sint len = int (unat len)"
proof -
  have "uint len < 2 ^ 63"
    using assms by (metis nat_less_iff unat_eq_nat_uint uint_ge_0 of_nat_numeral of_nat_power nat_int)
  then have "signed_take_bit 63 (uint len) = uint len"
    by (intro signed_take_bit_int_eq_self) (auto intro: order_trans [of _ 0])
  then show ?thesis
    by (simp add: sint_uint)
qed

lemma sint_large:
  fixes len :: "64 word"
  assumes "2 ^ 63 \<le> unat len"
  shows "sint len < 0"
proof -
  have u: "2 ^ 63 \<le> uint len"
    using assms by (metis of_nat_le_iff of_nat_numeral of_nat_power uint_nat)
  have "uint len < 2 ^ 64"
    using uint_lt2p [of len] by simp
  with u have "uint len div 2 ^ 63 = 1"
    by simp
  then have "bit (uint len) 63"
    by (simp add: bit_iff_odd)
  then have "bit len 63"
    by (simp add: bit_uint_iff)
  then show ?thesis
    using bit_last_iff [of len] by simp
qed

lemma sint_nat_64:
  fixes len :: "64 word"
  shows "(int n = sint len) = (n = unat len \<and> unat len < 2 ^ 63)"
proof (cases "unat len < 2 ^ 63")
  case True
  have "(int n = sint len) = (int n = int (unat len))"
    by (simp only: sint_small [OF True])
  also have "\<dots> = (n = unat len)"
    by (simp only: of_nat_eq_iff)
  finally show ?thesis
    using True by blast
next
  case False
  then have "sint len < 0" by (simp add: sint_large)
  with False show ?thesis by auto
qed

text \<open>The two masks of the first byte.\<close>

lemma fin_bit: "((b :: byte) AND 0x80 = 0x80) = bit b 7"
proof -
  define m :: byte where "m = 2 ^ 7"
  have bm: "bit m n = (n = 7)" for n
    unfolding m_def bit_exp_iff by (auto simp: possible_bit_word)
  have "(b AND m = m) = bit b 7"
  proof
    assume "b AND m = m"
    then have "bit (b AND m) 7 = bit m 7" by simp
    then show "bit b 7" by (simp add: bit_and_iff bm)
  next
    assume "bit b 7"
    then show "b AND m = m"
      by (intro bit_eqI) (auto simp: bit_and_iff bm)
  qed
  moreover have "m = 0x80"
    by (simp add: m_def)
  ultimately show ?thesis
    by simp
qed

lemma opcode_bits: "(b :: byte) AND 0x0F = take_bit 4 b"
  by (simp add: take_bit_eq_mask mask_numeral)

lemma reserved_ignored_fin: "((b :: byte) AND 0x8F) AND 0x80 = b AND 0x80"
  by (simp add: and.assoc)

lemma reserved_ignored_op: "((b :: byte) AND 0x8F) AND 0x0F = b AND 0x0F"
  by (simp add: and.assoc)

text \<open>The base length in the second byte.\<close>

lemma wire_base_length_less: "wire_base_length b1 < 128"
proof -
  have "b1 AND 0x7F \<le> 0x7F" by (rule word_and_le1)
  then show ?thesis by (simp add: wire_base_length_def word_le_nat_alt)
qed

lemma ucast_base_eq:
  "(ucast (b1 AND 0x7F) = (numeral k :: 64 word)) = (wire_base_length b1 = unat (numeral k :: 64 word))"
  by (simp only: wire_base_length_def word_unat_eq_iff [of "ucast (b1 AND 0x7F)"] unat_ucast_byte)

lemma unat_ucast_base: "unat (ucast (b1 AND 0x7F) :: 64 word) = wire_base_length b1"
  by (simp add: wire_base_length_def unat_ucast_byte)

lemma ucast_base_126: "(ucast (b1 AND 0x7F) = (126 :: 64 word)) = (wire_base_length b1 = 126)"
  using ucast_base_eq [of b1 "num.Bit0 (num.Bit1 (num.Bit1 (num.Bit1 (num.Bit1 (num.Bit1 num.One)))))"] by simp

lemma ucast_base_127: "(ucast (b1 AND 0x7F) = (127 :: 64 word)) = (wire_base_length b1 = 127)"
  using ucast_base_eq [of b1 "num.Bit1 (num.Bit1 (num.Bit1 (num.Bit1 (num.Bit1 (num.Bit1 num.One)))))"] by simp

lemma unat_wire_length:
  assumes "wire_length b1 rest < 2 ^ 63"
  shows "unat (word_of_nat (wire_length b1 rest) :: 64 word) = wire_length b1 rest"
proof -
  have "(2::nat) ^ 63 < 2 ^ 64" by simp
  with assms have "wire_length b1 rest < 2 ^ 64" by (rule less_trans)
  then show ?thesis by (simp add: unat_of_nat take_bit_nat_eq_self)
qed

subsection \<open>The parts of parseFrame on any reader\<close>

lemma spec_Truncated_ReadFailed: "spec_Truncated (Returns (frame_zero, Some (ReadFailed e)))"
  by (simp add: spec_Truncated_def)

lemma spec_Truncated_Expected:
  "n < k \<Longrightarrow> spec_Truncated (Returns (frame_zero, Some (ReadFailedExpected k n)))"
  by (simp add: spec_Truncated_def)

lemma spec_Truncated_not_frame: "spec_Truncated r \<Longrightarrow> r \<noteq> Returns (f, None)"
  by (auto simp: spec_Truncated_def)

lemma spec_Truncated_not_panic: "spec_Truncated r \<Longrightarrow> r \<noteq> Panics p"
  by (auto simp: spec_Truncated_def)

text \<open>
  A read into \<open>k\<close> bytes fails, or obtains fewer, or obtains the next \<open>k\<close> bytes of
  the stream. Each part of \<^verbatim>\<open>parseFrame\<close> goes by these three cases.
\<close>

lemma Read_exact_cases:
  assumes "Read (replicate k 0) b = ((p, n, e), b')"
  shows "(\<exists>err. e = Some err) \<or> (e = None \<and> n < k)
         \<or> (e = None \<and> n = k \<and> k \<le> length (stream_of b) \<and> p = take k (stream_of b)
             \<and> stream_of b' = drop k (stream_of b))"
proof -
  note s = Read_spec [OF assms]
  from s(1) have "n < k \<or> n = k" by auto
  moreover have "p = take k (stream_of b)" if "n = k"
    using s(3) that by simp
  ultimately show ?thesis
    using s(2,4) by (cases e) auto
qed

lemma length_cases:
  assumes "parseFrame_length len0 b = (s, b')"
  shows "(len0 \<noteq> 126 \<and> len0 \<noteq> 127 \<and> s = Next len0 \<and> b' = b)
       \<or> (\<exists>r. s = Exit r \<and> spec_Truncated r)
       \<or> (len0 = 126 \<and> 2 \<le> length (stream_of b) \<and> s = Exit (Panics (IndexOutOfRange 7 2))
           \<and> stream_of b' = drop 2 (stream_of b))
       \<or> (len0 = 127 \<and> 8 \<le> length (stream_of b)
           \<and> s = Next (word_of_nat (big_endian (take 8 (stream_of b))))
           \<and> stream_of b' = drop 8 (stream_of b))"
proof (cases "len0 = 126")
  case True
  obtain p n e c where r: "Read (replicate 2 0) b = ((p, n, e), c)"
    by (metis prod.exhaust)
  from Read_exact_cases [OF r] show ?thesis
  proof (elim disjE exE conjE)
    fix err assume "e = Some err"
    with True r assms show ?thesis
      by (auto simp: parseFrame_length_def spec_Truncated_ReadFailed)
  next
    assume "e = None" "n < 2"
    with True r assms show ?thesis
      by (auto simp: parseFrame_length_def spec_Truncated_Expected)
  next
    assume "e = None" "n = 2" "2 \<le> length (stream_of b)" "p = take 2 (stream_of b)"
      "stream_of c = drop 2 (stream_of b)"
    with True r assms show ?thesis
      by (auto simp: parseFrame_length_def Uint64_def)
  qed
next
  case n126: False
  show ?thesis
  proof (cases "len0 = 127")
    case False
    with n126 assms show ?thesis
      by (simp add: parseFrame_length_def)
  next
    case True
    obtain p n e c where r: "Read (replicate 8 0) b = ((p, n, e), c)"
      by (metis prod.exhaust)
    from Read_exact_cases [OF r] show ?thesis
    proof (elim disjE exE conjE)
      fix err assume "e = Some err"
      with True r assms show ?thesis
        by (auto simp: parseFrame_length_def spec_Truncated_ReadFailed)
    next
      assume "e = None" "n < 8"
      with True r assms show ?thesis
        by (auto simp: parseFrame_length_def spec_Truncated_Expected)
    next
      assume a: "e = None" "n = 8" "8 \<le> length (stream_of b)" "p = take 8 (stream_of b)"
        "stream_of c = drop 8 (stream_of b)"
      then have "length p = 8" by simp
      then have "Uint64 p = Returns (word_of_nat (big_endian p))"
        by (rule Uint64_8(1))
      with a True r assms show ?thesis
        by (auto simp: parseFrame_length_def)
    qed
  qed
qed

lemma mask_cases:
  assumes "parseFrame_mask msk b = (s, b')"
  shows "(msk \<noteq> 0x80 \<and> s = Next [] \<and> b' = b)
       \<or> (msk = 0x80 \<and> (\<exists>r. s = Exit r \<and> spec_Truncated r))
       \<or> (msk = 0x80 \<and> 4 \<le> length (stream_of b) \<and> s = Next (take 4 (stream_of b))
           \<and> stream_of b' = drop 4 (stream_of b))"
proof (cases "msk = 0x80")
  case False
  with assms show ?thesis
    by (simp add: parseFrame_mask_def)
next
  case True
  obtain p n e c where r: "Read (replicate 4 0) b = ((p, n, e), c)"
    by (metis prod.exhaust)
  from Read_exact_cases [OF r] show ?thesis
  proof (elim disjE exE conjE)
    fix err assume "e = Some err"
    with True r assms show ?thesis
      by (auto simp: parseFrame_mask_def spec_Truncated_ReadFailed)
  next
    assume "e = None" "n < 4"
    with True r assms show ?thesis
      by (auto simp: parseFrame_mask_def spec_Truncated_Expected)
  next
    assume "e = None" "n = 4" "4 \<le> length (stream_of b)" "p = take 4 (stream_of b)"
      "stream_of c = drop 4 (stream_of b)"
    with True r assms show ?thesis
      by (auto simp: parseFrame_mask_def)
  qed
qed

lemma payload_cases:
  assumes "parseFrame_payload lim len b = (s, b')"
  shows "(lim < unat len \<and> s = Exit (Panics MakesliceLenOutOfRange) \<and> b' = b)
       \<or> (unat len \<le> lim \<and> (\<exists>r. s = Exit r \<and> spec_Truncated r))
       \<or> (unat len \<le> lim \<and> 2 ^ 63 \<le> unat len
           \<and> (\<exists>n. n \<le> length (stream_of b)
                  \<and> s = Exit (Returns (frame_zero, Some (ReadFailedExpected (unat len) n)))))
       \<or> (unat len \<le> lim \<and> unat len < 2 ^ 63 \<and> unat len \<le> length (stream_of b)
           \<and> s = Next (take (unat len) (stream_of b))
           \<and> stream_of b' = drop (unat len) (stream_of b))"
proof (cases "lim < unat len")
  case True
  with assms show ?thesis
    by (simp add: parseFrame_payload_def makeslice_def)
next
  case False
  then have m: "makeslice lim len = Returns (replicate (unat len) 0)"
    by (simp add: makeslice_def)
  obtain p n e c where r: "Read (replicate (unat len) 0) b = ((p, n, e), c)"
    by (metis prod.exhaust)
  note sp = Read_spec(2) [OF r]
  from Read_exact_cases [OF r] show ?thesis
  proof (elim disjE exE conjE)
    fix err assume "e = Some err"
    with False m r assms show ?thesis
      by (auto simp: parseFrame_payload_def spec_Truncated_ReadFailed)
  next
    assume a: "e = None" "n < unat len"
    then have "int n \<noteq> sint len"
      using sint_nat_64 [of n len] by auto
    with a False m r assms show ?thesis
      by (auto simp: parseFrame_payload_def spec_Truncated_Expected)
  next
    assume a: "e = None" "n = unat len" "unat len \<le> length (stream_of b)"
      "p = take (unat len) (stream_of b)" "stream_of c = drop (unat len) (stream_of b)"
    show ?thesis
    proof (cases "unat len < 2 ^ 63")
      case True
      with a(2) have "int n = sint len"
        using sint_nat_64 [of n len] by blast
      with a True False m r assms show ?thesis
        by (auto simp: parseFrame_payload_def)
    next
      case big: False
      then have "int n \<noteq> sint len"
        using sint_nat_64 [of n len] by blast
      with a big False m r assms sp show ?thesis
        by (auto simp: parseFrame_payload_def)
    qed
  qed
qed

subsection \<open>parseFrame on any reader\<close>

lemma parseFrame_first_error:
  assumes "ReadByte b = ((c, Some err), b1)"
  shows "parseFrame lim b = (Returns (frame_zero, Some (ReadFailed err)), b1)"
  using assms by (simp add: parseFrame_def)

lemma parseFrame_second_error:
  assumes "ReadByte b = ((b0, None), r1)" and "ReadByte r1 = ((c, Some err), r2)"
  shows "parseFrame lim b = (Returns (frame_zero, Some (ReadFailed err)), r2)"
  using assms by (simp add: parseFrame_def Let_def)

lemma parseFrame_unfold:
  assumes "ReadByte b = ((b0, None), r1)" and "ReadByte r1 = ((b1, None), r2)"
  shows "parseFrame lim b =
     (case parseFrame_length (ucast (b1 AND 0x7F)) r2 of
        (Exit r, buf) \<Rightarrow> (r, buf)
      | (Next len, buf) \<Rightarrow>
          (case parseFrame_mask (b1 AND 0x80) buf of
             (Exit r, buf) \<Rightarrow> (r, buf)
           | (Next maskingKey, buf) \<Rightarrow>
               (case parseFrame_payload lim len buf of
                  (Exit r, buf) \<Rightarrow> (r, buf)
                | (Next payload', buf) \<Rightarrow>
                    (Returns (\<lparr>final = (b0 AND 0x80 = 0x80), opcode = b0 AND 0x0F,
                                frame_length = len, payload = payload'\<rparr>, None), buf))))"
  using assms by (simp add: parseFrame_def Let_def)

text \<open>After the two bytes of header: the outcomes of the three parts together.\<close>

lemma parseFrame_body_cases:
  assumes p: "(case parseFrame_length (ucast (b1 AND 0x7F)) r2 of
        (Exit r, buf) \<Rightarrow> (r, buf)
      | (Next len, buf) \<Rightarrow>
          (case parseFrame_mask (b1 AND 0x80) buf of
             (Exit r, buf) \<Rightarrow> (r, buf)
           | (Next maskingKey, buf) \<Rightarrow>
               (case parseFrame_payload lim len buf of
                  (Exit r, buf) \<Rightarrow> (r, buf)
                | (Next payload', buf) \<Rightarrow>
                    (Returns (\<lparr>final = (b0 AND 0x80 = 0x80), opcode = b0 AND 0x0F,
                                frame_length = len, payload = payload'\<rparr>, None), buf)))) = (res, b')"
    and rest: "stream_of r2 = rest"
  shows "spec_Truncated res
       \<or> (wire_base_length b1 = 126 \<and> 2 \<le> length rest \<and> res = Panics (IndexOutOfRange 7 2))
       \<or> (wire_base_length b1 \<noteq> 126 \<and> wire_ext_size b1 + wire_key_size b1 \<le> length rest
           \<and> lim < wire_length b1 rest \<and> res = Panics MakesliceLenOutOfRange)
       \<or> (wire_base_length b1 \<noteq> 126 \<and> wire_ext_size b1 + wire_key_size b1 \<le> length rest
           \<and> wire_length b1 rest \<le> lim \<and> 2 ^ 63 \<le> wire_length b1 rest
           \<and> (\<exists>n. n \<le> length rest - (wire_ext_size b1 + wire_key_size b1)
                  \<and> res = Returns (frame_zero,
                                   Some (ReadFailedExpected (wire_length b1 rest) n))))
       \<or> (wire_base_length b1 \<noteq> 126
           \<and> wire_ext_size b1 + wire_key_size b1 + wire_length b1 rest \<le> length rest
           \<and> wire_length b1 rest \<le> lim \<and> wire_length b1 rest < 2 ^ 63
           \<and> res = Returns (\<lparr>final = (b0 AND 0x80 = 0x80), opcode = b0 AND 0x0F,
                              frame_length = word_of_nat (wire_length b1 rest),
                              payload = take (wire_length b1 rest)
                                          (drop (wire_ext_size b1 + wire_key_size b1) rest)\<rparr>,
                            None)
           \<and> stream_of b' = drop (wire_ext_size b1 + wire_key_size b1 + wire_length b1 rest) rest)"
proof -
  obtain s1 r3 where l: "parseFrame_length (ucast (b1 AND 0x7F)) r2 = (s1, r3)"
    by (metis prod.exhaust)
  have stage2: ?thesis
    if n: "wire_base_length b1 \<noteq> 126" and e: "wire_ext_size b1 \<le> length rest"
      and s1: "s1 = Next len" and ul: "unat len = wire_length b1 rest"
      and wl: "len = word_of_nat (wire_length b1 rest)"
      and r3: "stream_of r3 = drop (wire_ext_size b1) rest" for len
  proof -
    obtain s2 r4 where m: "parseFrame_mask (b1 AND 0x80) r3 = (s2, r4)"
      by (metis prod.exhaust)
    have stage3: ?thesis
      if k: "wire_ext_size b1 + wire_key_size b1 \<le> length rest"
        and s2: "s2 = Next key"
        and r4: "stream_of r4 = drop (wire_ext_size b1 + wire_key_size b1) rest" for key
    proof -
      obtain s3 r5 where q: "parseFrame_payload lim len r4 = (s3, r5)"
        by (metis prod.exhaust)
      from p l s1 m s2 q have res: "(res, b') = (case s3 of Exit r \<Rightarrow> (r, r5)
          | Next payload' \<Rightarrow> (Returns (\<lparr>final = (b0 AND 0x80 = 0x80), opcode = b0 AND 0x0F,
                                frame_length = len, payload = payload'\<rparr>, None), r5))"
        by (simp split: step.splits)
      from payload_cases [OF q] show ?thesis
      proof (elim disjE exE conjE)
        assume "lim < unat len" "s3 = Exit (Panics MakesliceLenOutOfRange)"
        with res n k ul show ?thesis by simp
      next
        fix r assume "s3 = Exit r" "spec_Truncated r"
        with res show ?thesis by simp
      next
        fix n' assume "unat len \<le> lim" "2 ^ 63 \<le> unat len" "n' \<le> length (stream_of r4)"
          "s3 = Exit (Returns (frame_zero, Some (ReadFailedExpected (unat len) n')))"
        with res n k ul r4 show ?thesis by auto
      next
        assume "unat len \<le> lim" "unat len < 2 ^ 63" "unat len \<le> length (stream_of r4)"
          "s3 = Next (take (unat len) (stream_of r4))"
          "stream_of r5 = drop (unat len) (stream_of r4)"
        with res n k ul wl r4 show ?thesis
          by (auto simp: add.commute)
      qed
    qed
    from mask_cases [OF m] show ?thesis
    proof (elim disjE exE conjE)
      assume a: "b1 AND 0x80 \<noteq> 0x80" "s2 = Next []" "r4 = r3"
      then have "wire_key_size b1 = 0"
        by (simp add: wire_key_size_def wire_mask_bit_def)
      with a e r3 show ?thesis
        by (intro stage3 [of "[]"]) simp_all
    next
      fix r assume "s2 = Exit r" "spec_Truncated r"
      with p l s1 m show ?thesis by simp
    next
      assume a: "b1 AND 0x80 = 0x80" "4 \<le> length (stream_of r3)"
        "s2 = Next (take 4 (stream_of r3))" "stream_of r4 = drop 4 (stream_of r3)"
      then have "wire_key_size b1 = 4"
        by (simp add: wire_key_size_def wire_mask_bit_def)
      with a e r3 show ?thesis
        by (intro stage3 [of "take 4 (stream_of r3)"]) (simp_all add: add.commute)
    qed
  qed
  from length_cases [OF l] show ?thesis
  proof (elim disjE exE conjE)
    assume a: "ucast (b1 AND 0x7F) \<noteq> (126 :: 64 word)" "ucast (b1 AND 0x7F) \<noteq> (127 :: 64 word)"
      "s1 = Next (ucast (b1 AND 0x7F))" "r3 = r2"
    then have b: "wire_base_length b1 \<noteq> 126" "wire_base_length b1 \<noteq> 127"
      by (simp_all add: ucast_base_126 ucast_base_127)
    then have w: "wire_ext_size b1 = 0" "wire_length b1 rest = wire_base_length b1"
      by (simp_all add: wire_ext_size_def wire_length_def)
    have "word_of_nat (wire_base_length b1) = (ucast (b1 AND 0x7F) :: 64 word)"
      by (simp add: wire_base_length_def)
    with a b w rest show ?thesis
      by (intro stage2 [of "ucast (b1 AND 0x7F)"]) (simp_all add: unat_ucast_base)
  next
    fix r assume "s1 = Exit r" "spec_Truncated r"
    with p l show ?thesis by simp
  next
    assume "ucast (b1 AND 0x7F) = (126 :: 64 word)" "2 \<le> length (stream_of r2)"
      "s1 = Exit (Panics (IndexOutOfRange 7 2))"
    with p l rest show ?thesis
      by (simp add: ucast_base_126)
  next
    assume a: "ucast (b1 AND 0x7F) = (127 :: 64 word)" "8 \<le> length (stream_of r2)"
      "s1 = Next (word_of_nat (big_endian (take 8 (stream_of r2))))"
      "stream_of r3 = drop 8 (stream_of r2)"
    then have b: "wire_base_length b1 = 127"
      by (simp add: ucast_base_127)
    then have w: "wire_ext_size b1 = 8" "wire_length b1 rest = big_endian (take 8 rest)"
      by (simp_all add: wire_ext_size_def wire_length_def)
    from a rest have "length (take 8 rest) = 8" by simp
    then have "big_endian (take 8 rest) < 2 ^ 64" by (rule Uint64_8(2))
    then have "unat (word_of_nat (big_endian (take 8 rest)) :: 64 word) = big_endian (take 8 rest)"
      by (simp add: unat_of_nat take_bit_nat_eq_self)
    with a b w rest show ?thesis
      by (intro stage2 [of "word_of_nat (big_endian (take 8 rest))"]) simp_all
  qed
qed

text \<open>
  The outcomes of \<^verbatim>\<open>parseFrame\<close> on any reader: an error of a read that ended early,
  the panic of the 16-bit length, the panic of \<^verbatim>\<open>make\<close>, the error on a length that
  is negative as an \<^verbatim>\<open>int\<close>, or the frame.
\<close>

lemma parseFrame_cases:
  assumes "parseFrame lim b = (res, b')"
  shows "spec_Truncated res
       \<or> (\<exists>b0 b1 rest. stream_of b = b0 # b1 # rest
           \<and> wire_base_length b1 = 126 \<and> 2 \<le> length rest
           \<and> res = Panics (IndexOutOfRange 7 2))
       \<or> (\<exists>b0 b1 rest. stream_of b = b0 # b1 # rest
           \<and> wire_base_length b1 \<noteq> 126 \<and> wire_ext_size b1 + wire_key_size b1 \<le> length rest
           \<and> lim < wire_length b1 rest \<and> res = Panics MakesliceLenOutOfRange)
       \<or> (\<exists>b0 b1 rest n. stream_of b = b0 # b1 # rest
           \<and> wire_base_length b1 \<noteq> 126 \<and> wire_ext_size b1 + wire_key_size b1 \<le> length rest
           \<and> wire_length b1 rest \<le> lim \<and> 2 ^ 63 \<le> wire_length b1 rest
           \<and> n \<le> length rest - (wire_ext_size b1 + wire_key_size b1)
           \<and> res = Returns (frame_zero, Some (ReadFailedExpected (wire_length b1 rest) n)))
       \<or> (\<exists>b0 b1 rest. stream_of b = b0 # b1 # rest
           \<and> wire_base_length b1 \<noteq> 126
           \<and> wire_ext_size b1 + wire_key_size b1 + wire_length b1 rest \<le> length rest
           \<and> wire_length b1 rest \<le> lim \<and> wire_length b1 rest < 2 ^ 63
           \<and> res = Returns (\<lparr>final = (b0 AND 0x80 = 0x80), opcode = b0 AND 0x0F,
                              frame_length = word_of_nat (wire_length b1 rest),
                              payload = take (wire_length b1 rest)
                                          (drop (wire_ext_size b1 + wire_key_size b1) rest)\<rparr>,
                            None)
           \<and> stream_of b' = drop (wire_ext_size b1 + wire_key_size b1 + wire_length b1 rest) rest)"
proof -
  obtain b0 e0 r1 where x0: "ReadByte b = ((b0, e0), r1)"
    by (metis prod.exhaust)
  show ?thesis
  proof (cases e0)
    case (Some err)
    with x0 assms show ?thesis
      by (auto simp: parseFrame_first_error spec_Truncated_ReadFailed)
  next
    case n0: None
    with ReadByte_spec [OF x0] have s0: "stream_of b = b0 # stream_of r1" by simp
    obtain b1 e1 r2 where x1: "ReadByte r1 = ((b1, e1), r2)"
      by (metis prod.exhaust)
    show ?thesis
    proof (cases e1)
      case (Some err)
      with x0 n0 x1 assms show ?thesis
        by (auto simp: parseFrame_second_error spec_Truncated_ReadFailed)
    next
      case None
      with ReadByte_spec [OF x1] s0 have s: "stream_of b = b0 # b1 # stream_of r2" by simp
      from x0 n0 x1 None assms parseFrame_unfold [of b b0 r1 b1 r2 lim]
      have "(case parseFrame_length (ucast (b1 AND 0x7F)) r2 of
        (Exit r, buf) \<Rightarrow> (r, buf)
      | (Next len, buf) \<Rightarrow>
          (case parseFrame_mask (b1 AND 0x80) buf of
             (Exit r, buf) \<Rightarrow> (r, buf)
           | (Next maskingKey, buf) \<Rightarrow>
               (case parseFrame_payload lim len buf of
                  (Exit r, buf) \<Rightarrow> (r, buf)
                | (Next payload', buf) \<Rightarrow>
                    (Returns (\<lparr>final = (b0 AND 0x80 = 0x80), opcode = b0 AND 0x0F,
                                frame_length = len, payload = payload'\<rparr>, None), buf)))) = (res, b')"
        by simp
      from parseFrame_body_cases [OF this refl] s show ?thesis
        by (elim disjE exE conjE) (simp, blast, blast, blast, blast)
    qed
  qed
qed

text \<open>What a returned frame says about the stream.\<close>

lemma parseFrame_success:
  assumes s: "stream_of b = b0 # b1 # rest"
    and p: "fst (parseFrame lim b) = Returns (f, None)"
  shows "wire_base_length b1 \<noteq> 126"
    and "wire_ext_size b1 + wire_key_size b1 + wire_length b1 rest \<le> length rest"
    and "wire_length b1 rest \<le> lim"
    and "wire_length b1 rest < 2 ^ 63"
    and "f = \<lparr>final = (b0 AND 0x80 = 0x80), opcode = b0 AND 0x0F,
              frame_length = word_of_nat (wire_length b1 rest),
              payload = take (wire_length b1 rest)
                          (drop (wire_ext_size b1 + wire_key_size b1) rest)\<rparr>"
    and "stream_of (snd (parseFrame lim b))
           = drop (wire_ext_size b1 + wire_key_size b1 + wire_length b1 rest) rest"
proof -
  obtain b' where q: "parseFrame lim b = (Returns (f, None), b')"
    using p by (cases "parseFrame lim b") simp
  from parseFrame_cases [OF q] s
  have "wire_base_length b1 \<noteq> 126
        \<and> wire_ext_size b1 + wire_key_size b1 + wire_length b1 rest \<le> length rest
        \<and> wire_length b1 rest \<le> lim \<and> wire_length b1 rest < 2 ^ 63
        \<and> f = \<lparr>final = (b0 AND 0x80 = 0x80), opcode = b0 AND 0x0F,
              frame_length = word_of_nat (wire_length b1 rest),
              payload = take (wire_length b1 rest)
                          (drop (wire_ext_size b1 + wire_key_size b1) rest)\<rparr>
        \<and> stream_of b' = drop (wire_ext_size b1 + wire_key_size b1 + wire_length b1 rest) rest"
    by (elim disjE exE conjE) (auto dest: spec_Truncated_not_frame)
  with q show "wire_base_length b1 \<noteq> 126"
    and "wire_ext_size b1 + wire_key_size b1 + wire_length b1 rest \<le> length rest"
    and "wire_length b1 rest \<le> lim"
    and "wire_length b1 rest < 2 ^ 63"
    and "f = \<lparr>final = (b0 AND 0x80 = 0x80), opcode = b0 AND 0x0F,
              frame_length = word_of_nat (wire_length b1 rest),
              payload = take (wire_length b1 rest)
                          (drop (wire_ext_size b1 + wire_key_size b1) rest)\<rparr>"
    and "stream_of (snd (parseFrame lim b))
           = drop (wire_ext_size b1 + wire_key_size b1 + wire_length b1 rest) rest"
    by simp_all
qed

lemma parseFrame_success_shape:
  assumes "fst (parseFrame lim b) = Returns (f, None)"
  obtains b0 b1 rest where "stream_of b = b0 # b1 # rest"
proof -
  obtain b' where q: "parseFrame lim b = (Returns (f, None), b')"
    using assms by (cases "parseFrame lim b") simp
  from parseFrame_cases [OF q] that show ?thesis
    by (elim disjE exE conjE) (auto dest: spec_Truncated_not_frame)
qed

text \<open>A stream that ends before the bytes a read needs.\<close>

lemma parseFrame_short_stream:
  assumes s: "stream_of b = b0 # b1 # rest"
    and short: "length rest < wire_ext_size b1
       \<or> (wire_base_length b1 \<noteq> 126 \<and> length rest < wire_ext_size b1 + wire_key_size b1)
       \<or> (wire_base_length b1 \<noteq> 126 \<and> wire_length b1 rest \<le> lim
           \<and> length rest < wire_ext_size b1 + wire_key_size b1 + wire_length b1 rest)"
  shows "spec_Truncated (fst (parseFrame lim b))"
proof -
  obtain res b' where q: "parseFrame lim b = (res, b')"
    by (metis prod.exhaust)
  have e: "wire_base_length b1 = 126 \<Longrightarrow> wire_ext_size b1 = 2"
    by (simp add: wire_ext_size_def)
  from parseFrame_cases [OF q] s short e have "spec_Truncated res"
    by (elim disjE exE conjE) (auto intro: spec_Truncated_Expected)
  with q show ?thesis by simp
qed

text \<open>The bits of the first byte that the frame keeps.\<close>

lemma parseFrame_reserved_ignored:
  assumes x: "ReadByte b = ((b0, None), r1)" and y: "ReadByte c = ((b0 AND 0x8F, None), r1)"
  shows "parseFrame lim c = parseFrame lim b"
proof -
  obtain b1 e r2 where z: "ReadByte r1 = ((b1, e), r2)"
    by (metis prod.exhaust)
  show ?thesis
  proof (cases e)
    case (Some err)
    with x y z show ?thesis
      by (simp add: parseFrame_def)
  next
    case None
    with z have z': "ReadByte r1 = ((b1, None), r2)" by simp
    show ?thesis
      by (simp add: parseFrame_unfold [OF x z'] parseFrame_unfold [OF y z']
            reserved_ignored_fin reserved_ignored_op
            cong: prod.case_cong step.case_cong)
  qed
qed

subsection \<open>parseFrame on a reader that has the bytes in its buffer\<close>

lemma length_buffered:
  assumes "wire_base_length b1 \<noteq> 126" and "wire_ext_size b1 \<le> length (buffered r)"
  shows "parseFrame_length (ucast (b1 AND 0x7F)) r
           = (Next (word_of_nat (wire_length b1 (buffered r))),
              r\<lparr>buffered := drop (wire_ext_size b1) (buffered r)\<rparr>)"
proof (cases "wire_base_length b1 = 127")
  case True
  with assms(2) have 8: "8 \<le> length (buffered r)" by (simp add: wire_ext_size_def)
  then have "Uint64 (take 8 (buffered r)) = Returns (word_of_nat (big_endian (take 8 (buffered r))))"
    by (intro Uint64_8(1)) simp
  with True 8 show ?thesis
    by (simp add: ucast_base_127 [THEN iffD2] parseFrame_length_def Read_replicate_buffered
          wire_length_def wire_ext_size_def)
next
  case False
  have "word_of_nat (wire_base_length b1) = (ucast (b1 AND 0x7F) :: 64 word)"
    by (simp add: wire_base_length_def)
  with False assms(1) show ?thesis
    by (simp add: parseFrame_length_def ucast_base_126 ucast_base_127 wire_length_def
          wire_ext_size_def)
qed

lemma length_buffered_126:
  assumes "wire_base_length b1 = 126" and "2 \<le> length (buffered r)"
  shows "parseFrame_length (ucast (b1 AND 0x7F)) r
           = (Exit (Panics (IndexOutOfRange 7 2)), r\<lparr>buffered := drop 2 (buffered r)\<rparr>)"
  using assms
  by (simp add: ucast_base_126 [THEN iffD2] parseFrame_length_def Read_replicate_buffered
        Uint64_def)

lemma mask_buffered:
  assumes "wire_key_size b1 \<le> length (buffered r)"
  shows "parseFrame_mask (b1 AND 0x80) r
           = (Next (take (wire_key_size b1) (buffered r)),
              r\<lparr>buffered := drop (wire_key_size b1) (buffered r)\<rparr>)"
proof (cases "b1 AND 0x80 = 0x80")
  case True
  with assms show ?thesis
    by (simp add: wire_key_size_def wire_mask_bit_def parseFrame_mask_def Read_replicate_buffered)
next
  case False
  then show ?thesis
    by (simp add: wire_key_size_def wire_mask_bit_def parseFrame_mask_def)
qed

lemma payload_buffered:
  assumes "unat len \<le> lim" and "unat len < 2 ^ 63" and "unat len \<le> length (buffered r)"
    and "0 < unat len \<or> buffered r \<noteq> [] \<or> pending r = None"
  shows "parseFrame_payload lim len r
           = (Next (take (unat len) (buffered r)), r\<lparr>buffered := drop (unat len) (buffered r)\<rparr>)"
proof -
  have "int (unat len) = sint len"
    using sint_nat_64 [of "unat len" len] assms(2) by blast
  with assms show ?thesis
    by (simp add: parseFrame_payload_def makeslice_def Read_replicate_buffered)
qed

lemma parseFrame_buffered:
  assumes buf: "buffered b = b0 # b1 # rest"
    and n: "wire_base_length b1 \<noteq> 126"
    and l: "wire_ext_size b1 + wire_key_size b1 + wire_length b1 rest \<le> length rest"
    and m: "wire_length b1 rest \<le> lim"
    and i: "wire_length b1 rest < 2 ^ 63"
    and z: "pending b = None"
  shows "parseFrame lim b
           = (Returns (\<lparr>final = (b0 AND 0x80 = 0x80), opcode = b0 AND 0x0F,
                         frame_length = word_of_nat (wire_length b1 rest),
                         payload = take (wire_length b1 rest)
                                     (drop (wire_ext_size b1 + wire_key_size b1) rest)\<rparr>, None),
              b\<lparr>buffered := drop (wire_ext_size b1 + wire_key_size b1 + wire_length b1 rest) rest\<rparr>)"
proof -
  let ?r2 = "b\<lparr>buffered := rest\<rparr>"
  have x0: "ReadByte b = ((b0, None), b\<lparr>buffered := b1 # rest\<rparr>)"
    using buf by (rule ReadByte_buffered)
  have x1: "ReadByte (b\<lparr>buffered := b1 # rest\<rparr>) = ((b1, None), ?r2)"
    using ReadByte_buffered [of "b\<lparr>buffered := b1 # rest\<rparr>" b1 rest] by simp
  let ?r3 = "b\<lparr>buffered := drop (wire_ext_size b1) rest\<rparr>"
  have s1: "parseFrame_length (ucast (b1 AND 0x7F)) ?r2
              = (Next (word_of_nat (wire_length b1 rest)), ?r3)"
    using length_buffered [of b1 ?r2] n l by simp
  let ?r4 = "b\<lparr>buffered := drop (wire_ext_size b1 + wire_key_size b1) rest\<rparr>"
  have s2: "parseFrame_mask (b1 AND 0x80) ?r3
              = (Next (take (wire_key_size b1) (drop (wire_ext_size b1) rest)), ?r4)"
    using mask_buffered [of b1 ?r3] l by (simp add: add.commute)
  have s3: "parseFrame_payload lim (word_of_nat (wire_length b1 rest)) ?r4
              = (Next (take (wire_length b1 rest) (drop (wire_ext_size b1 + wire_key_size b1) rest)),
                 b\<lparr>buffered := drop (wire_ext_size b1 + wire_key_size b1 + wire_length b1 rest) rest\<rparr>)"
    using payload_buffered [of "word_of_nat (wire_length b1 rest)" lim ?r4] l m i z
    by (simp add: unat_wire_length [OF i] add.commute add.left_commute)
  show ?thesis
    by (simp add: parseFrame_unfold [OF x0 x1] s1 s2 s3)
qed

lemma parseFrame_buffered_126:
  assumes buf: "buffered b = b0 # b1 # rest"
    and n: "wire_base_length b1 = 126" and l: "2 \<le> length rest"
  shows "parseFrame lim b = (Panics (IndexOutOfRange 7 2), b\<lparr>buffered := drop 2 rest\<rparr>)"
proof -
  let ?r2 = "b\<lparr>buffered := rest\<rparr>"
  have x0: "ReadByte b = ((b0, None), b\<lparr>buffered := b1 # rest\<rparr>)"
    using buf by (rule ReadByte_buffered)
  have x1: "ReadByte (b\<lparr>buffered := b1 # rest\<rparr>) = ((b1, None), ?r2)"
    using ReadByte_buffered [of "b\<lparr>buffered := b1 # rest\<rparr>" b1 rest] by simp
  have "parseFrame_length (ucast (b1 AND 0x7F)) ?r2
          = (Exit (Panics (IndexOutOfRange 7 2)), b\<lparr>buffered := drop 2 rest\<rparr>)"
    using length_buffered_126 [of b1 ?r2] n l by simp
  then show ?thesis
    by (simp add: parseFrame_unfold [OF x0 x1])
qed

text \<open>A reader whose buffer holds the frame up to a part of its payload.\<close>

lemma payload_buffered_short:
  assumes "unat len \<le> lim" and "unat len < 2 ^ 63" and "buffered r \<noteq> []"
    and "length (buffered r) < unat len"
  shows "parseFrame_payload lim len r
           = (Exit (Returns (frame_zero, Some (ReadFailedExpected (unat len) (length (buffered r))))),
              r\<lparr>buffered := []\<rparr>)"
proof -
  have "int (length (buffered r)) \<noteq> sint len"
    using sint_nat_64 [of "length (buffered r)" len] assms(2,4) by auto
  with assms Read_buffered_short [of r "replicate (unat len) 0"] show ?thesis
    by (simp add: parseFrame_payload_def makeslice_def)
qed

lemma parseFrame_buffered_short:
  assumes buf: "buffered b = b0 # b1 # rest"
    and n: "wire_base_length b1 \<noteq> 126"
    and l: "wire_ext_size b1 + wire_key_size b1 < length rest"
    and s: "length rest < wire_ext_size b1 + wire_key_size b1 + wire_length b1 rest"
    and m: "wire_length b1 rest \<le> lim"
    and i: "wire_length b1 rest < 2 ^ 63"
  shows "parseFrame lim b
           = (Returns (frame_zero,
                Some (ReadFailedExpected (wire_length b1 rest)
                        (length rest - (wire_ext_size b1 + wire_key_size b1)))),
              b\<lparr>buffered := []\<rparr>)"
proof -
  let ?r2 = "b\<lparr>buffered := rest\<rparr>"
  have x0: "ReadByte b = ((b0, None), b\<lparr>buffered := b1 # rest\<rparr>)"
    using buf by (rule ReadByte_buffered)
  have x1: "ReadByte (b\<lparr>buffered := b1 # rest\<rparr>) = ((b1, None), ?r2)"
    using ReadByte_buffered [of "b\<lparr>buffered := b1 # rest\<rparr>" b1 rest] by simp
  let ?r3 = "b\<lparr>buffered := drop (wire_ext_size b1) rest\<rparr>"
  have s1: "parseFrame_length (ucast (b1 AND 0x7F)) ?r2
              = (Next (word_of_nat (wire_length b1 rest)), ?r3)"
    using length_buffered [of b1 ?r2] n l by simp
  let ?r4 = "b\<lparr>buffered := drop (wire_ext_size b1 + wire_key_size b1) rest\<rparr>"
  have s2: "parseFrame_mask (b1 AND 0x80) ?r3
              = (Next (take (wire_key_size b1) (drop (wire_ext_size b1) rest)), ?r4)"
    using mask_buffered [of b1 ?r3] l by (simp add: add.commute)
  have s3: "parseFrame_payload lim (word_of_nat (wire_length b1 rest)) ?r4
              = (Exit (Returns (frame_zero,
                   Some (ReadFailedExpected (wire_length b1 rest)
                           (length rest - (wire_ext_size b1 + wire_key_size b1))))),
                 b\<lparr>buffered := []\<rparr>)"
    using payload_buffered_short [of "word_of_nat (wire_length b1 rest)" lim ?r4] l s m i
    by (simp add: unat_wire_length [OF i])
  show ?thesis
    by (simp add: parseFrame_unfold [OF x0 x1] s1 s2 s3)
qed

text \<open>
  A reader with an empty buffer: the first read underneath fills the buffer, with all it
  brings or with as much as fits.
\<close>

lemma parseFrame_fills:
  assumes "buffered b = []" and "pending b = None" and "source b = (c # bs, None) # rd"
    and "length (c # bs) \<le> bufsize b"
  shows "parseFrame lim b = parseFrame lim (b\<lparr>buffered := c # bs, source := rd\<rparr>)"
proof -
  have "ReadByte (b\<lparr>buffered := c # bs, source := rd\<rparr>)
          = ((c, None), b\<lparr>buffered := bs, source := rd\<rparr>)"
    using ReadByte_buffered [of "b\<lparr>buffered := c # bs, source := rd\<rparr>" c bs] by simp
  with ReadByte_fills [OF assms] show ?thesis
    by (simp add: parseFrame_def)
qed

lemma parseFrame_fills_part:
  assumes "buffered b = []" and "pending b = None" and "source b = (bs, e) # rd"
    and "bufsize b < length bs" and "0 < bufsize b"
  shows "parseFrame lim b
           = parseFrame lim (b\<lparr>buffered := take (bufsize b) bs,
                                source := (drop (bufsize b) bs, e) # rd\<rparr>)"
proof -
  let ?c = "b\<lparr>buffered := take (bufsize b) bs, source := (drop (bufsize b) bs, e) # rd\<rparr>"
  from assms have f: "fill b = ?c"
    by (simp add: fill_def fill_loop.simps [of 100])
  from assms have "buffered ?c \<noteq> []"
    by auto
  then have "ReadByte ?c = ReadByte (fill b)"
    by (simp add: f)
  moreover from assms have "ReadByte b = ReadByte (fill b)"
    by (subst ReadByte.simps) simp
  ultimately show ?thesis
    by (simp add: parseFrame_def)
qed

text \<open>The definitions a run on given bytes unfolds.\<close>

lemmas run_simps = parseFrame_def ReadByte.simps fill_def fill_loop.simps Read_def NewReader_def
  parseFrame_length_def parseFrame_mask_def parseFrame_payload_def makeslice_def Uint64_def
  Let_def

lemmas wire_simps = wire_base_length_def wire_mask_bit_def wire_ext_size_def wire_key_size_def
  wire_length_def

subsection \<open>No partly decoded frame on an error\<close>

text \<open>
  Claim C10. Whenever \<^verbatim>\<open>parseFrame\<close> returns an error, the frame it returns with it is
  the zero frame: \<open>final\<close> false, \<open>opcode\<close> 0, \<open>length\<close> 0 and an empty payload. No
  field read before the failing step is kept.
\<close>

theorem parseFrame_error_zero_frame:
  "fst (parseFrame lim buf) = Returns (f, Some e) \<Longrightarrow>
     f = \<lparr>final = False, opcode = 0, frame_length = 0, payload = []\<rparr>"
proof -
  assume p: "fst (parseFrame lim buf) = Returns (f, Some e)"
  then obtain b' where q: "parseFrame lim buf = (Returns (f, Some e), b')"
    by (cases "parseFrame lim buf") simp
  from parseFrame_cases [OF q] have "f = frame_zero"
    by (elim disjE exE conjE) (auto simp: spec_Truncated_def split: error.splits)
  then show ?thesis
    by (simp add: frame_zero_def)
qed

text \<open>
  The theorem at a frame cut inside its masking key: FIN and opcode text, the mask bit
  and length 5, then two bytes where four are due.
\<close>

theorem parseFrame_error_zero_frame_witness:
  "fst (parseFrame 1024 (NewReader [([0x81, 0x85, 0x01, 0x02], None)]))
     = Returns (\<lparr>final = False, opcode = 0, frame_length = 0, payload = []\<rparr>,
                Some (ReadFailedExpected 4 2))"
proof -
  have run: "fst (parseFrame 1024 (NewReader [([0x81, 0x85, 0x01, 0x02], None)]))
               = Returns (frame_zero, Some (ReadFailedExpected 4 2))"
    by (simp add: run_simps)
  from parseFrame_error_zero_frame [OF run] run show ?thesis
    by simp
qed

subsection \<open>The 16-bit extended length\<close>

text \<open>
  Claim C3 says that on a base length of 126 \<^verbatim>\<open>parseFrame\<close> reads the next two bytes
  and returns a frame whose length is their big-endian value, and fails in no other way
  than on an early end of the stream. The program reads the two bytes into a two-byte
  array and hands it to \<^verbatim>\<open>binary.BigEndian.Uint64\<close>, which needs eight: whenever the
  read obtains the two bytes, \<^verbatim>\<open>parseFrame\<close> panics with an index out of range. It
  does so on every reader that has the two bytes in its buffer, and from no reader is a
  frame of base length 126 returned: no frame of 126 to 65535 bytes of payload is ever
  decoded.
\<close>

theorem parseFrame_length_126_panics:
  "wire_base_length b1 = 126 \<Longrightarrow>
     (buffered b = b0 # b1 # rest \<and> 2 \<le> length rest \<longrightarrow>
        parseFrame lim b = (Panics (IndexOutOfRange 7 2), b\<lparr>buffered := drop 2 rest\<rparr>))
     \<and> (ReadByte b = ((b0, None), r1) \<and> ReadByte r1 = ((b1, None), r2)
          \<and> Read (replicate 2 0) r2 = ((p, 2, None), r3) \<longrightarrow>
        parseFrame lim b = (Panics (IndexOutOfRange 7 2), r3))
     \<and> (stream_of b = b0 # b1 # rest \<longrightarrow> fst (parseFrame lim b) \<noteq> Returns (f, None))"
proof (intro conjI impI)
  assume n: "wire_base_length b1 = 126"
  {
    assume "buffered b = b0 # b1 # rest \<and> 2 \<le> length rest"
    with n show "parseFrame lim b = (Panics (IndexOutOfRange 7 2), b\<lparr>buffered := drop 2 rest\<rparr>)"
      by (simp add: parseFrame_buffered_126)
  next
    assume a: "ReadByte b = ((b0, None), r1) \<and> ReadByte r1 = ((b1, None), r2)
          \<and> Read (replicate 2 0) r2 = ((p, 2, None), r3)"
    then have r: "Read (replicate 2 0) r2 = ((p, 2, None), r3)" by simp
    from Read_spec(2,3) [OF r] have "length p = 2" by simp
    then have "Uint64 p = Panics (IndexOutOfRange 7 2)"
      by (simp add: Uint64_def)
    with n r have "parseFrame_length (ucast (b1 AND 0x7F)) r2
                     = (Exit (Panics (IndexOutOfRange 7 2)), r3)"
      by (simp add: ucast_base_126 [THEN iffD2] parseFrame_length_def)
    with a show "parseFrame lim b = (Panics (IndexOutOfRange 7 2), r3)"
      by (simp add: parseFrame_unfold [of b b0 r1 b1 r2])
  next
    assume s: "stream_of b = b0 # b1 # rest"
    show "fst (parseFrame lim b) \<noteq> Returns (f, None)"
    proof
      assume "fst (parseFrame lim b) = Returns (f, None)"
      from parseFrame_success(1) [OF s this] n show False by simp
    qed
  }
qed

text \<open>
  The theorem at a complete masked text frame of 126 bytes of payload: header
  \<open>81 FE 00 7E\<close>, the masking key, the payload; in the buffer of the reader, and on
  a connection that is still to be read.
\<close>

theorem parseFrame_length_126_panics_witness:
  "wire_base_length 0xFE = 126
   \<and> parseFrame 1024
         \<lparr>buffered = [0x81, 0xFE, 0x00, 0x7E, 0x37, 0xFA, 0x21, 0x3D] @ replicate 126 0x7F,
            pending = None, source = [], bufsize = 4096\<rparr>
       = (Panics (IndexOutOfRange 7 2),
          \<lparr>buffered = [0x37, 0xFA, 0x21, 0x3D] @ replicate 126 0x7F,
             pending = None, source = [], bufsize = 4096\<rparr>)
   \<and> fst (parseFrame 1024
         (NewReader [([0x81, 0xFE, 0x00, 0x7E, 0x37, 0xFA, 0x21, 0x3D] @ replicate 126 0x7F, None)]))
       \<noteq> Returns (frame_zero, None)"
proof -
  have b: "wire_base_length 0xFE = 126"
    by (simp add: wire_base_length_def)
  from parseFrame_length_126_panics
         [OF b, where b = "\<lparr>buffered = [0x81, 0xFE, 0x00, 0x7E, 0x37, 0xFA, 0x21, 0x3D] @ replicate 126 0x7F,
                      pending = None, source = [], bufsize = 4096\<rparr>"
                and ?b0.0 = "0x81" and rest = "[0x00, 0x7E, 0x37, 0xFA, 0x21, 0x3D] @ replicate 126 0x7F"
                and lim = 1024]
  have 1: "parseFrame 1024
         \<lparr>buffered = [0x81, 0xFE, 0x00, 0x7E, 0x37, 0xFA, 0x21, 0x3D] @ replicate 126 0x7F,
            pending = None, source = [], bufsize = 4096\<rparr>
       = (Panics (IndexOutOfRange 7 2),
          \<lparr>buffered = [0x37, 0xFA, 0x21, 0x3D] @ replicate 126 0x7F,
             pending = None, source = [], bufsize = 4096\<rparr>)"
    by simp
  from parseFrame_length_126_panics
         [OF b, where b = "NewReader [([0x81, 0xFE, 0x00, 0x7E, 0x37, 0xFA, 0x21, 0x3D] @ replicate 126 0x7F, None)]"
                and ?b0.0 = "0x81" and rest = "[0x00, 0x7E, 0x37, 0xFA, 0x21, 0x3D] @ replicate 126 0x7F"
                and lim = 1024 and f = frame_zero]
  have 2: "fst (parseFrame 1024
         (NewReader [([0x81, 0xFE, 0x00, 0x7E, 0x37, 0xFA, 0x21, 0x3D] @ replicate 126 0x7F, None)]))
       \<noteq> Returns (frame_zero, None)"
    by (simp add: stream_of_def NewReader_def)
  from b 1 2 show ?thesis
    by blast
qed

subsection \<open>Exact reads\<close>

text \<open>
  Claim C9. Whenever \<^verbatim>\<open>parseFrame\<close> returns a frame, the frame's \<open>length\<close> is the
  number of bytes of its payload, and these bytes are bytes of the stream, none a
  padding zero. On a stream that ends before the bytes of the extended length, of the
  masking key or of the payload, \<^verbatim>\<open>parseFrame\<close> returns the zero frame with a
  \<open>Truncated\<close> error. It does the same when the read of the payload obtains fewer
  bytes than the length says although the connection has more to give: with a part of
  the payload in the reader's buffer, \<^verbatim>\<open>Read\<close> hands over that part and
  \<^verbatim>\<open>parseFrame\<close> returns the error with the two counts. With a bound of \<^verbatim>\<open>make\<close>
  below \<open>2 ^ 63\<close>, \<^verbatim>\<open>parseFrame\<close> returns a frame, or a \<open>Truncated\<close> error with
  the zero frame, or it panics. (The reads of the masking key and of the payload are
  reached when the base length is not 126, and the second when \<^verbatim>\<open>make\<close> has
  returned the slice.)
\<close>

theorem parseFrame_exact_reads:
  "(fst (parseFrame lim buf) = Returns (f, None) \<longrightarrow>
      unat (frame_length f) = length (payload f))
   \<and> (stream_of buf = b0 # b1 # rest \<and> fst (parseFrame lim buf) = Returns (f, None) \<longrightarrow>
        wire_ext_size b1 + wire_key_size b1 + length (payload f) \<le> length rest
        \<and> payload f = take (length (payload f)) (drop (wire_ext_size b1 + wire_key_size b1) rest))
   \<and> (stream_of buf = b0 # b1 # rest \<and> length rest < wire_ext_size b1 \<longrightarrow>
        spec_Truncated (fst (parseFrame lim buf)))
   \<and> (stream_of buf = b0 # b1 # rest
        \<and> wire_base_length b1 \<noteq> 126 \<and> wire_ext_size b1 \<le> length rest
        \<and> length rest < wire_ext_size b1 + wire_key_size b1 \<longrightarrow>
        spec_Truncated (fst (parseFrame lim buf)))
   \<and> (stream_of buf = b0 # b1 # rest
        \<and> wire_base_length b1 \<noteq> 126 \<and> wire_ext_size b1 + wire_key_size b1 \<le> length rest
        \<and> length rest < wire_ext_size b1 + wire_key_size b1 + wire_length b1 rest
        \<and> wire_length b1 rest \<le> lim \<longrightarrow>
        spec_Truncated (fst (parseFrame lim buf)))
   \<and> (buffered buf = b0 # b1 # rest
        \<and> wire_base_length b1 \<noteq> 126 \<and> wire_ext_size b1 + wire_key_size b1 < length rest
        \<and> length rest < wire_ext_size b1 + wire_key_size b1 + wire_length b1 rest
        \<and> wire_length b1 rest \<le> lim \<and> lim < 2 ^ 63 \<longrightarrow>
        parseFrame lim buf
          = (Returns (frame_zero,
               Some (ReadFailedExpected (wire_length b1 rest)
                       (length rest - (wire_ext_size b1 + wire_key_size b1)))),
             buf\<lparr>buffered := []\<rparr>))
   \<and> (lim < 2 ^ 63 \<longrightarrow>
        (\<exists>g. fst (parseFrame lim buf) = Returns (g, None))
        \<or> spec_Truncated (fst (parseFrame lim buf))
        \<or> (\<exists>p. fst (parseFrame lim buf) = Panics p))"
proof (intro conjI impI)
  assume p: "fst (parseFrame lim buf) = Returns (f, None)"
  then obtain c0 c1 r where buf: "stream_of buf = c0 # c1 # r"
    by (rule parseFrame_success_shape)
  note s = parseFrame_success [OF buf p]
  from s(2,5) show "unat (frame_length f) = length (payload f)"
    by (simp add: unat_wire_length [OF s(4)])
next
  assume a: "stream_of buf = b0 # b1 # rest \<and> fst (parseFrame lim buf) = Returns (f, None)"
  then have buf: "stream_of buf = b0 # b1 # rest" and p: "fst (parseFrame lim buf) = Returns (f, None)"
    by simp_all
  note s = parseFrame_success [OF buf p]
  from s(2,5) have l: "length (payload f) = wire_length b1 rest"
    by simp
  with s(2) show "wire_ext_size b1 + wire_key_size b1 + length (payload f) \<le> length rest"
    by simp
  from s(5) l show "payload f = take (length (payload f)) (drop (wire_ext_size b1 + wire_key_size b1) rest)"
    by simp
next
  assume "stream_of buf = b0 # b1 # rest \<and> length rest < wire_ext_size b1"
  then show "spec_Truncated (fst (parseFrame lim buf))"
    by (intro parseFrame_short_stream [of buf b0 b1 rest]) simp_all
next
  assume "stream_of buf = b0 # b1 # rest
        \<and> wire_base_length b1 \<noteq> 126 \<and> wire_ext_size b1 \<le> length rest
        \<and> length rest < wire_ext_size b1 + wire_key_size b1"
  then show "spec_Truncated (fst (parseFrame lim buf))"
    by (intro parseFrame_short_stream [of buf b0 b1 rest]) simp_all
next
  assume "stream_of buf = b0 # b1 # rest
        \<and> wire_base_length b1 \<noteq> 126 \<and> wire_ext_size b1 + wire_key_size b1 \<le> length rest
        \<and> length rest < wire_ext_size b1 + wire_key_size b1 + wire_length b1 rest
        \<and> wire_length b1 rest \<le> lim"
  then show "spec_Truncated (fst (parseFrame lim buf))"
    by (intro parseFrame_short_stream [of buf b0 b1 rest]) simp_all
next
  assume a: "buffered buf = b0 # b1 # rest
        \<and> wire_base_length b1 \<noteq> 126 \<and> wire_ext_size b1 + wire_key_size b1 < length rest
        \<and> length rest < wire_ext_size b1 + wire_key_size b1 + wire_length b1 rest
        \<and> wire_length b1 rest \<le> lim \<and> lim < 2 ^ 63"
  then have "wire_length b1 rest < 2 ^ 63" by simp
  with a show "parseFrame lim buf
          = (Returns (frame_zero,
               Some (ReadFailedExpected (wire_length b1 rest)
                       (length rest - (wire_ext_size b1 + wire_key_size b1)))),
             buf\<lparr>buffered := []\<rparr>)"
    by (intro parseFrame_buffered_short) simp_all
next
  assume lim: "lim < 2 ^ 63"
  obtain res b' where q: "parseFrame lim buf = (res, b')"
    by (metis prod.exhaust)
  from parseFrame_cases [OF q] lim
  have "(\<exists>g. res = Returns (g, None)) \<or> spec_Truncated res \<or> (\<exists>p. res = Panics p)"
    by (elim disjE exE conjE) auto
  with q show "(\<exists>g. fst (parseFrame lim buf) = Returns (g, None))
        \<or> spec_Truncated (fst (parseFrame lim buf))
        \<or> (\<exists>p. fst (parseFrame lim buf) = Panics p)"
    by simp
qed

text \<open>
  The theorem at a complete masked frame, at streams cut inside the 16-bit length, the
  64-bit length, the masking key and the payload, and at an unmasked frame of which the
  reader has the first four bytes.
\<close>

theorem parseFrame_exact_reads_witness:
  "fst (parseFrame 1024
         (NewReader [([0x81, 0x85, 0x37, 0xFA, 0x21, 0x3D, 0x7F, 0x9F, 0x4D, 0x51, 0x58], None)]))
     = Returns (\<lparr>final = True, opcode = 1, frame_length = 5,
                  payload = [0x7F, 0x9F, 0x4D, 0x51, 0x58]\<rparr>, None)
   \<and> unat (5 :: 64 word) = length [0x7F, 0x9F, 0x4D, 0x51, 0x58 :: byte]
   \<and> spec_Truncated (fst (parseFrame 1024 (NewReader [([0x81, 0xFE, 0x00], None)])))
   \<and> spec_Truncated (fst (parseFrame 1024
         (NewReader [([0x81, 0xFF, 0x00, 0x00, 0x00], None), ([0x00, 0x00], None)])))
   \<and> spec_Truncated (fst (parseFrame 1024 (NewReader [([0x81, 0x85, 0x37, 0xFA], None)])))
   \<and> spec_Truncated (fst (parseFrame 1024
         (NewReader [([0x81, 0x85, 0x37, 0xFA, 0x21, 0x3D, 0x7F, 0x9F], None)])))
   \<and> parseFrame 1024
        \<lparr>buffered = [0x81, 0x05, 0x48, 0x65], pending = None,
           source = [([0x6C, 0x6C, 0x6F], None)], bufsize = 4096\<rparr>
       = (Returns (frame_zero, Some (ReadFailedExpected 5 2)),
          \<lparr>buffered = [], pending = None, source = [([0x6C, 0x6C, 0x6F], None)], bufsize = 4096\<rparr>)
   \<and> ((\<exists>g. fst (parseFrame 1024 (NewReader [([0x81, 0x05, 0x48, 0x65], None), ([0x6C, 0x6C, 0x6F], None)]))
             = Returns (g, None))
        \<or> spec_Truncated
             (fst (parseFrame 1024 (NewReader [([0x81, 0x05, 0x48, 0x65], None), ([0x6C, 0x6C, 0x6F], None)])))
        \<or> (\<exists>p. fst (parseFrame 1024 (NewReader [([0x81, 0x05, 0x48, 0x65], None), ([0x6C, 0x6C, 0x6F], None)]))
             = Panics p))"
proof -
  have p: "fst (parseFrame 1024
         (NewReader [([0x81, 0x85, 0x37, 0xFA, 0x21, 0x3D, 0x7F, 0x9F, 0x4D, 0x51, 0x58], None)]))
     = Returns (\<lparr>final = True, opcode = 1, frame_length = 5,
                  payload = [0x7F, 0x9F, 0x4D, 0x51, 0x58]\<rparr>, None)"
    by (simp add: run_simps)
  from p parseFrame_exact_reads
         [where lim = 1024
            and buf = "NewReader [([0x81, 0x85, 0x37, 0xFA, 0x21, 0x3D, 0x7F, 0x9F, 0x4D, 0x51, 0x58], None)]"
            and f = "\<lparr>final = True, opcode = 1, frame_length = 5,
                       payload = [0x7F, 0x9F, 0x4D, 0x51, 0x58]\<rparr>"]
  have 1: "unat (5 :: 64 word) = length [0x7F, 0x9F, 0x4D, 0x51, 0x58 :: byte]"
    by simp
  from parseFrame_exact_reads
         [where lim = 1024 and buf = "NewReader [([0x81, 0xFE, 0x00], None)]"
            and ?b0.0 = "0x81" and ?b1.0 = "0xFE" and rest = "[0x00]"]
  have 2: "spec_Truncated (fst (parseFrame 1024 (NewReader [([0x81, 0xFE, 0x00], None)])))"
    by (simp add: wire_simps stream_of_def NewReader_def)
  from parseFrame_exact_reads
         [where lim = 1024
            and buf = "NewReader [([0x81, 0xFF, 0x00, 0x00, 0x00], None), ([0x00, 0x00], None)]"
            and ?b0.0 = "0x81" and ?b1.0 = "0xFF" and rest = "[0x00, 0x00, 0x00, 0x00, 0x00]"]
  have 3: "spec_Truncated (fst (parseFrame 1024
         (NewReader [([0x81, 0xFF, 0x00, 0x00, 0x00], None), ([0x00, 0x00], None)])))"
    by (simp add: wire_simps stream_of_def NewReader_def)
  from parseFrame_exact_reads
         [where lim = 1024 and buf = "NewReader [([0x81, 0x85, 0x37, 0xFA], None)]"
            and ?b0.0 = "0x81" and ?b1.0 = "0x85" and rest = "[0x37, 0xFA]"]
  have 4: "spec_Truncated (fst (parseFrame 1024 (NewReader [([0x81, 0x85, 0x37, 0xFA], None)])))"
    by (simp add: wire_simps stream_of_def NewReader_def)
  from parseFrame_exact_reads
         [where lim = 1024
            and buf = "NewReader [([0x81, 0x85, 0x37, 0xFA, 0x21, 0x3D, 0x7F, 0x9F], None)]"
            and ?b0.0 = "0x81" and ?b1.0 = "0x85" and rest = "[0x37, 0xFA, 0x21, 0x3D, 0x7F, 0x9F]"]
  have 5: "spec_Truncated (fst (parseFrame 1024
         (NewReader [([0x81, 0x85, 0x37, 0xFA, 0x21, 0x3D, 0x7F, 0x9F], None)])))"
    by (simp add: wire_simps stream_of_def NewReader_def)
  from parseFrame_exact_reads
         [where lim = 1024
            and buf = "\<lparr>buffered = [0x81, 0x05, 0x48, 0x65], pending = None,
                        source = [([0x6C, 0x6C, 0x6F], None)], bufsize = 4096\<rparr>"
            and ?b0.0 = "0x81" and ?b1.0 = "0x05" and rest = "[0x48, 0x65]"]
  have 6: "parseFrame 1024
        \<lparr>buffered = [0x81, 0x05, 0x48, 0x65], pending = None,
           source = [([0x6C, 0x6C, 0x6F], None)], bufsize = 4096\<rparr>
       = (Returns (frame_zero, Some (ReadFailedExpected 5 2)),
          \<lparr>buffered = [], pending = None, source = [([0x6C, 0x6C, 0x6F], None)], bufsize = 4096\<rparr>)"
    by (simp add: wire_simps)
  from parseFrame_exact_reads
         [where lim = 1024
            and buf = "NewReader [([0x81, 0x05, 0x48, 0x65], None), ([0x6C, 0x6C, 0x6F], None)]"]
  have 7: "(\<exists>g. fst (parseFrame 1024 (NewReader [([0x81, 0x05, 0x48, 0x65], None), ([0x6C, 0x6C, 0x6F], None)]))
             = Returns (g, None))
        \<or> spec_Truncated
             (fst (parseFrame 1024 (NewReader [([0x81, 0x05, 0x48, 0x65], None), ([0x6C, 0x6C, 0x6F], None)])))
        \<or> (\<exists>p. fst (parseFrame 1024 (NewReader [([0x81, 0x05, 0x48, 0x65], None), ([0x6C, 0x6C, 0x6F], None)]))
             = Panics p)"
    by simp
  from p 1 2 3 4 5 6 7 show ?thesis
    by blast
qed

text \<open>
  The unmasked frame of the theorem above, on a connection that hands it over in two
  reads.
\<close>

lemma parseFrame_two_segments:
  "fst (parseFrame 1024 (NewReader [([0x81, 0x05, 0x48, 0x65], None), ([0x6C, 0x6C, 0x6F], None)]))
     = Returns (frame_zero, Some (ReadFailedExpected 5 2))"
  by (simp add: run_simps)

text \<open>
  A complete unmasked frame of 4087 bytes of payload, with its length on 64 bits, that
  the connection hands over in one read: 4096 bytes fit into the buffer, ten of them are
  the header, and the read of the payload obtains the other 4086.
\<close>

lemma parseFrame_frame_beyond_buffer:
  "parseFrame 65536
     (NewReader [([0x82, 0x7F, 0x00, 0x00, 0x00, 0x00, 0x00, 0x00, 0x0F, 0xF7] @ replicate 4087 0x41,
                  None)])
     = (Returns (frame_zero, Some (ReadFailedExpected 4087 4086)),
        \<lparr>buffered = [], pending = None, source = [([0x41], None)], bufsize = 4096\<rparr>)"
proof -
  let ?rest = "[0x00, 0x00, 0x00, 0x00, 0x00, 0x00, 0x0F, 0xF7] @ replicate 4086 (0x41 :: byte)"
  let ?c = "\<lparr>buffered = 0x82 # 0x7F # ?rest, pending = None, source = [([0x41], None)],
              bufsize = 4096\<rparr>"
  have d: "drop 4086 (replicate 4087 (0x41 :: byte)) = [0x41]"
    by simp
  have "parseFrame 65536
     (NewReader [([0x82, 0x7F, 0x00, 0x00, 0x00, 0x00, 0x00, 0x00, 0x0F, 0xF7] @ replicate 4087 0x41,
                  None)])
     = parseFrame 65536 ?c"
    by (subst parseFrame_fills_part
          [where bs = "[0x82, 0x7F, 0x00, 0x00, 0x00, 0x00, 0x00, 0x00, 0x0F, 0xF7] @ replicate 4087 0x41"
             and e = None and rd = "[]"])
       (simp_all add: NewReader_def d)
  moreover have w: "wire_length 0x7F ?rest = 4087"
    by (simp add: wire_length_def wire_base_length_def big_endian_def)
  have "parseFrame 65536 ?c
     = (Returns (frame_zero,
          Some (ReadFailedExpected (wire_length 0x7F ?rest)
                  (length ?rest - (wire_ext_size 0x7F + wire_key_size 0x7F)))),
        ?c\<lparr>buffered := []\<rparr>)"
    by (rule parseFrame_buffered_short)
       (simp_all add: w [simplified] wire_base_length_def wire_ext_size_def wire_key_size_def
          wire_mask_bit_def)
  ultimately show ?thesis
    by (simp add: w [simplified] wire_base_length_def wire_ext_size_def wire_key_size_def
          wire_mask_bit_def)
qed

subsection \<open>Masked frames\<close>

text \<open>
  Claim C4 says that the payload of a masked frame is delivered unmasked and that the
  frame records the masking key. It does not hold: on the masked \<open>Hello\<close> of RFC 6455
  the program delivers the five bytes as they are on the wire.
\<close>

theorem parseFrame_masked_counterexample:
  "fst (parseFrame 1024
         (NewReader [([0x81, 0x85, 0x37, 0xFA, 0x21, 0x3D, 0x7F, 0x9F, 0x4D, 0x51, 0x58], None)]))
     = Returns (\<lparr>final = True, opcode = 1, frame_length = 5,
                  payload = [0x7F, 0x9F, 0x4D, 0x51, 0x58]\<rparr>, None)
   \<and> spec_unmask [0x37, 0xFA, 0x21, 0x3D] [0x7F, 0x9F, 0x4D, 0x51, 0x58]
       = [0x48, 0x65, 0x6C, 0x6C, 0x6F]
   \<and> [0x7F, 0x9F, 0x4D, 0x51, 0x58]
       \<noteq> spec_unmask [0x37, 0xFA, 0x21, 0x3D] [0x7F, 0x9F, 0x4D, 0x51, 0x58]"
  by (simp add: run_simps spec_unmask_def)

text \<open>
  Claim C4 as amended. For every frame decoded with the mask bit set, \<^verbatim>\<open>parseFrame\<close>
  reads the four bytes of masking key and drops them: the payload it delivers is the
  payload of the wire, byte for byte, with no XOR applied, and the frame it returns
  consists of \<open>final\<close>, \<open>opcode\<close>, \<open>length\<close> and that payload, with no masking key.
\<close>

theorem parseFrame_masked_payload_raw:
  "stream_of buf = b0 # b1 # rest \<Longrightarrow>
   fst (parseFrame lim buf) = Returns (f, None) \<Longrightarrow> wire_mask_bit b1 \<Longrightarrow>
     4 \<le> length (drop (wire_ext_size b1) rest)
     \<and> payload f = take (unat (frame_length f)) (drop 4 (drop (wire_ext_size b1) rest))
     \<and> f = \<lparr>final = (b0 AND 0x80 = 0x80), opcode = b0 AND 0x0F,
              frame_length = word_of_nat (wire_length b1 rest),
              payload = take (wire_length b1 rest) (drop (wire_ext_size b1 + 4) rest)\<rparr>"
proof -
  assume buf: "stream_of buf = b0 # b1 # rest"
    and p: "fst (parseFrame lim buf) = Returns (f, None)" and m: "wire_mask_bit b1"
  note s = parseFrame_success [OF buf p]
  from m have k: "wire_key_size b1 = 4" by (simp add: wire_key_size_def)
  from s(2) k have "4 \<le> length (drop (wire_ext_size b1) rest)" by simp
  moreover from s(5) k
  have f: "f = \<lparr>final = (b0 AND 0x80 = 0x80), opcode = b0 AND 0x0F,
              frame_length = word_of_nat (wire_length b1 rest),
              payload = take (wire_length b1 rest) (drop (wire_ext_size b1 + 4) rest)\<rparr>"
    by simp
  moreover from f have "payload f = take (unat (frame_length f)) (drop 4 (drop (wire_ext_size b1) rest))"
    by (simp add: unat_wire_length [OF s(4)] add.commute)
  ultimately show ?thesis by blast
qed

text \<open>The theorem at the masked \<open>Hello\<close>.\<close>

theorem parseFrame_masked_payload_raw_witness:
  "wire_mask_bit 0x85
   \<and> fst (parseFrame 1024
           (NewReader [([0x81, 0x85, 0x37, 0xFA, 0x21, 0x3D, 0x7F, 0x9F, 0x4D, 0x51, 0x58], None)]))
       = Returns (\<lparr>final = True, opcode = 1, frame_length = 5,
                    payload = [0x7F, 0x9F, 0x4D, 0x51, 0x58]\<rparr>, None)
   \<and> take 5 (drop 4 [0x37, 0xFA, 0x21, 0x3D, 0x7F, 0x9F, 0x4D, 0x51, 0x58])
       = ([0x7F, 0x9F, 0x4D, 0x51, 0x58] :: byte list)"
proof -
  have m: "wire_mask_bit 0x85"
    by (simp add: wire_mask_bit_def)
  have s: "stream_of (NewReader [([0x81, 0x85, 0x37, 0xFA, 0x21, 0x3D, 0x7F, 0x9F, 0x4D, 0x51, 0x58], None)])
             = 0x81 # 0x85 # [0x37, 0xFA, 0x21, 0x3D, 0x7F, 0x9F, 0x4D, 0x51, 0x58]"
    by (simp add: stream_of_def NewReader_def)
  have p: "fst (parseFrame 1024
           (NewReader [([0x81, 0x85, 0x37, 0xFA, 0x21, 0x3D, 0x7F, 0x9F, 0x4D, 0x51, 0x58], None)]))
             = Returns (\<lparr>final = True, opcode = 1, frame_length = 5,
                          payload = [0x7F, 0x9F, 0x4D, 0x51, 0x58]\<rparr>, None)"
    by (simp add: run_simps)
  from parseFrame_masked_payload_raw [OF s p m] m p show ?thesis
    by (simp add: wire_ext_size_def wire_base_length_def)
qed

subsection \<open>Unmasked frames\<close>

text \<open>
  Claim C5 says that a frame with the mask bit clear is rejected as malformed. It does
  not hold: the program decodes the unmasked \<open>Hello\<close> of RFC 6455.
\<close>

theorem parseFrame_unmasked_counterexample:
  "fst (parseFrame 1024 (NewReader [([0x81, 0x05, 0x48, 0x65, 0x6C, 0x6C, 0x6F], None)]))
     = Returns (\<lparr>final = True, opcode = 1, frame_length = 5,
                  payload = [0x48, 0x65, 0x6C, 0x6C, 0x6F]\<rparr>, None)"
  by (simp add: run_simps)

text \<open>
  Claim C5 as amended. A frame with the mask bit clear is not rejected: \<^verbatim>\<open>parseFrame\<close>
  reads no masking key and takes the payload right after the length. It returns the
  decoded frame and no error when the base length is not 126, the length is one
  \<^verbatim>\<open>make\<close> allocates, and the reader has the whole frame at hand: in its buffer,
  with no error kept; or, its buffer being empty, in the next read of the connection,
  within the size of the buffer. (A frame of which the reader has a part only is that
  of the exact reads above.)
\<close>

theorem parseFrame_unmasked_accepted:
  "\<not> wire_mask_bit b1 \<Longrightarrow>
     (stream_of buf = b0 # b1 # rest \<and> fst (parseFrame lim buf) = Returns (f, None) \<longrightarrow>
        payload f = take (unat (frame_length f)) (drop (wire_ext_size b1) rest))
     \<and> (buffered buf = b0 # b1 # rest \<and> pending buf = None \<and> wire_base_length b1 \<noteq> 126
          \<and> wire_ext_size b1 + wire_length b1 rest \<le> length rest
          \<and> wire_length b1 rest \<le> lim \<and> lim < 2 ^ 63 \<longrightarrow>
        parseFrame lim buf
          = (Returns (\<lparr>final = (b0 AND 0x80 = 0x80), opcode = b0 AND 0x0F,
                        frame_length = word_of_nat (wire_length b1 rest),
                        payload = take (wire_length b1 rest) (drop (wire_ext_size b1) rest)\<rparr>, None),
             buf\<lparr>buffered := drop (wire_ext_size b1 + wire_length b1 rest) rest\<rparr>))
     \<and> (buffered buf = [] \<and> pending buf = None \<and> source buf = (b0 # b1 # rest, None) # rd
          \<and> length (b0 # b1 # rest) \<le> bufsize buf \<and> wire_base_length b1 \<noteq> 126
          \<and> wire_ext_size b1 + wire_length b1 rest \<le> length rest
          \<and> wire_length b1 rest \<le> lim \<and> lim < 2 ^ 63 \<longrightarrow>
        parseFrame lim buf
          = (Returns (\<lparr>final = (b0 AND 0x80 = 0x80), opcode = b0 AND 0x0F,
                        frame_length = word_of_nat (wire_length b1 rest),
                        payload = take (wire_length b1 rest) (drop (wire_ext_size b1) rest)\<rparr>, None),
             buf\<lparr>buffered := drop (wire_ext_size b1 + wire_length b1 rest) rest, source := rd\<rparr>))"
proof (intro conjI impI)
  assume m: "\<not> wire_mask_bit b1"
  then have k: "wire_key_size b1 = 0" by (simp add: wire_key_size_def)
  {
    assume "stream_of buf = b0 # b1 # rest \<and> fst (parseFrame lim buf) = Returns (f, None)"
    then have s: "stream_of buf = b0 # b1 # rest" and p: "fst (parseFrame lim buf) = Returns (f, None)"
      by simp_all
    note t = parseFrame_success [OF s p]
    from t(5) k show "payload f = take (unat (frame_length f)) (drop (wire_ext_size b1) rest)"
      by (simp add: unat_wire_length [OF t(4)])
  next
    assume a: "buffered buf = b0 # b1 # rest \<and> pending buf = None \<and> wire_base_length b1 \<noteq> 126
          \<and> wire_ext_size b1 + wire_length b1 rest \<le> length rest
          \<and> wire_length b1 rest \<le> lim \<and> lim < 2 ^ 63"
    then have i: "wire_length b1 rest < 2 ^ 63" by simp
    from a k have "wire_ext_size b1 + wire_key_size b1 + wire_length b1 rest \<le> length rest" by simp
    from parseFrame_buffered [OF _ _ this _ i, of buf b0 lim] a k
    show "parseFrame lim buf
          = (Returns (\<lparr>final = (b0 AND 0x80 = 0x80), opcode = b0 AND 0x0F,
                        frame_length = word_of_nat (wire_length b1 rest),
                        payload = take (wire_length b1 rest) (drop (wire_ext_size b1) rest)\<rparr>, None),
             buf\<lparr>buffered := drop (wire_ext_size b1 + wire_length b1 rest) rest\<rparr>)"
      by simp
  next
    assume a: "buffered buf = [] \<and> pending buf = None \<and> source buf = (b0 # b1 # rest, None) # rd
          \<and> length (b0 # b1 # rest) \<le> bufsize buf \<and> wire_base_length b1 \<noteq> 126
          \<and> wire_ext_size b1 + wire_length b1 rest \<le> length rest
          \<and> wire_length b1 rest \<le> lim \<and> lim < 2 ^ 63"
    then have i: "wire_length b1 rest < 2 ^ 63" by simp
    from a have "parseFrame lim buf = parseFrame lim (buf\<lparr>buffered := b0 # b1 # rest, source := rd\<rparr>)"
      by (intro parseFrame_fills) simp_all
    moreover
    from a k have "wire_ext_size b1 + wire_key_size b1 + wire_length b1 rest \<le> length rest" by simp
    from parseFrame_buffered [OF _ _ this _ i, of "buf\<lparr>buffered := b0 # b1 # rest, source := rd\<rparr>" b0 lim] a k
    have "parseFrame lim (buf\<lparr>buffered := b0 # b1 # rest, source := rd\<rparr>)
          = (Returns (\<lparr>final = (b0 AND 0x80 = 0x80), opcode = b0 AND 0x0F,
                        frame_length = word_of_nat (wire_length b1 rest),
                        payload = take (wire_length b1 rest) (drop (wire_ext_size b1) rest)\<rparr>, None),
             buf\<lparr>buffered := drop (wire_ext_size b1 + wire_length b1 rest) rest, source := rd\<rparr>)"
      by simp
    ultimately show "parseFrame lim buf
          = (Returns (\<lparr>final = (b0 AND 0x80 = 0x80), opcode = b0 AND 0x0F,
                        frame_length = word_of_nat (wire_length b1 rest),
                        payload = take (wire_length b1 rest) (drop (wire_ext_size b1) rest)\<rparr>, None),
             buf\<lparr>buffered := drop (wire_ext_size b1 + wire_length b1 rest) rest, source := rd\<rparr>)"
      by simp
  }
qed

text \<open>
  The theorem at the unmasked \<open>Hello\<close> followed by two bytes of a next frame: in the
  buffer of the reader, and on a connection that is still to be read.
\<close>

theorem parseFrame_unmasked_accepted_witness:
  "\<not> wire_mask_bit 0x05 \<and> wire_base_length 0x05 \<noteq> 126
   \<and> parseFrame 1024
        \<lparr>buffered = [0x81, 0x05, 0x48, 0x65, 0x6C, 0x6C, 0x6F, 0x89, 0x00], pending = None,
           source = [], bufsize = 4096\<rparr>
       = (Returns (\<lparr>final = True, opcode = 1, frame_length = 5,
                     payload = [0x48, 0x65, 0x6C, 0x6C, 0x6F]\<rparr>, None),
          \<lparr>buffered = [0x89, 0x00], pending = None, source = [], bufsize = 4096\<rparr>)
   \<and> parseFrame 1024 (NewReader [([0x81, 0x05, 0x48, 0x65, 0x6C, 0x6C, 0x6F, 0x89, 0x00], None)])
       = (Returns (\<lparr>final = True, opcode = 1, frame_length = 5,
                     payload = [0x48, 0x65, 0x6C, 0x6C, 0x6F]\<rparr>, None),
          \<lparr>buffered = [0x89, 0x00], pending = None, source = [], bufsize = 4096\<rparr>)"
proof -
  have m: "\<not> wire_mask_bit 0x05" and b: "wire_base_length 0x05 \<noteq> 126" and e: "wire_ext_size 0x05 = 0"
    and a: "wire_length 0x05 [0x48, 0x65, 0x6C, 0x6C, 0x6F, 0x89, 0x00] = 5"
    by (simp_all add: wire_mask_bit_def wire_base_length_def wire_ext_size_def wire_length_def)
  from parseFrame_unmasked_accepted
         [OF m, where buf = "\<lparr>buffered = [0x81, 0x05, 0x48, 0x65, 0x6C, 0x6C, 0x6F, 0x89, 0x00],
                               pending = None, source = [], bufsize = 4096\<rparr>"
                and ?b0.0 = "0x81" and rest = "[0x48, 0x65, 0x6C, 0x6C, 0x6F, 0x89, 0x00]"
                and lim = 1024] b
  have 1: "parseFrame 1024
        \<lparr>buffered = [0x81, 0x05, 0x48, 0x65, 0x6C, 0x6C, 0x6F, 0x89, 0x00], pending = None,
           source = [], bufsize = 4096\<rparr>
       = (Returns (\<lparr>final = True, opcode = 1, frame_length = 5,
                     payload = [0x48, 0x65, 0x6C, 0x6C, 0x6F]\<rparr>, None),
          \<lparr>buffered = [0x89, 0x00], pending = None, source = [], bufsize = 4096\<rparr>)"
    by (simp add: e a)
  from parseFrame_unmasked_accepted
         [OF m, where buf = "NewReader [([0x81, 0x05, 0x48, 0x65, 0x6C, 0x6C, 0x6F, 0x89, 0x00], None)]"
                and ?b0.0 = "0x81" and rest = "[0x48, 0x65, 0x6C, 0x6C, 0x6F, 0x89, 0x00]"
                and lim = 1024 and rd = "[]"] b
  have 2: "parseFrame 1024 (NewReader [([0x81, 0x05, 0x48, 0x65, 0x6C, 0x6C, 0x6F, 0x89, 0x00], None)])
       = (Returns (\<lparr>final = True, opcode = 1, frame_length = 5,
                     payload = [0x48, 0x65, 0x6C, 0x6C, 0x6F]\<rparr>, None),
          \<lparr>buffered = [0x89, 0x00], pending = None, source = [], bufsize = 4096\<rparr>)"
    by (simp add: e a NewReader_def)
  from m b 1 2 show ?thesis
    by blast
qed

subsection \<open>The first byte\<close>

text \<open>
  Claim C6 says that a first byte with one of bits 4 to 6 set makes \<^verbatim>\<open>parseFrame\<close>
  return a malformed-frame error. It does not hold: with all three set, the masked
  \<open>Hello\<close> is decoded.
\<close>

theorem parseFrame_reserved_bits_counterexample:
  "fst (parseFrame 1024
         (NewReader [([0xF1, 0x85, 0x37, 0xFA, 0x21, 0x3D, 0x7F, 0x9F, 0x4D, 0x51, 0x58], None)]))
     = Returns (\<lparr>final = True, opcode = 1, frame_length = 5,
                  payload = [0x7F, 0x9F, 0x4D, 0x51, 0x58]\<rparr>, None)"
  by (simp add: run_simps)

text \<open>
  Claim C6 as amended. \<^verbatim>\<open>parseFrame\<close> does not look at bits 4 to 6 of the first
  byte. For every first byte, whenever a frame is returned, its \<open>final\<close> flag is bit 7
  of that byte and its opcode is bits 0 to 3; and \<^verbatim>\<open>parseFrame\<close> returns the same,
  frame, error or panic, and leaves the reader the same, when the first byte comes with
  bits 4 to 6 cleared.
\<close>

theorem parseFrame_first_byte:
  "(stream_of buf = b0 # s \<and> fst (parseFrame lim buf) = Returns (f, None) \<longrightarrow>
      final f = bit b0 7 \<and> opcode f = take_bit 4 b0)
   \<and> (ReadByte buf = ((b0, None), r1) \<and> ReadByte buf' = ((b0 AND 0x8F, None), r1) \<longrightarrow>
        parseFrame lim buf' = parseFrame lim buf)"
proof (intro conjI impI)
  assume a: "stream_of buf = b0 # s \<and> fst (parseFrame lim buf) = Returns (f, None)"
  then have p: "fst (parseFrame lim buf) = Returns (f, None)" by simp
  then obtain c0 b1 rest where c: "stream_of buf = c0 # b1 # rest"
    by (rule parseFrame_success_shape)
  with a have buf: "stream_of buf = b0 # b1 # rest" by simp
  note t = parseFrame_success [OF buf p]
  from t(5) show "final f = bit b0 7" and "opcode f = take_bit 4 b0"
    by (simp_all add: fin_bit opcode_bits)
next
  assume "ReadByte buf = ((b0, None), r1) \<and> ReadByte buf' = ((b0 AND 0x8F, None), r1)"
  then show "parseFrame lim buf' = parseFrame lim buf"
    by (intro parseFrame_reserved_ignored) simp_all
qed

text \<open>The theorem at the masked \<open>Hello\<close> with the first byte \<open>F1\<close>, and with \<open>81\<close>.\<close>

theorem parseFrame_first_byte_witness:
  "fst (parseFrame 1024
         (NewReader [([0xF1, 0x85, 0x37, 0xFA, 0x21, 0x3D, 0x7F, 0x9F, 0x4D, 0x51, 0x58], None)]))
     = Returns (\<lparr>final = True, opcode = 1, frame_length = 5,
                  payload = [0x7F, 0x9F, 0x4D, 0x51, 0x58]\<rparr>, None)
   \<and> bit (0xF1 :: byte) 7 \<and> take_bit 4 (0xF1 :: byte) = 1
   \<and> (0xF1 :: byte) AND 0x8F = 0x81
   \<and> parseFrame 1024
         (NewReader [([0x81, 0x85, 0x37, 0xFA, 0x21, 0x3D, 0x7F, 0x9F, 0x4D, 0x51, 0x58], None)])
       = parseFrame 1024
           (NewReader [([0xF1, 0x85, 0x37, 0xFA, 0x21, 0x3D, 0x7F, 0x9F, 0x4D, 0x51, 0x58], None)])"
proof -
  have p: "fst (parseFrame 1024
         (NewReader [([0xF1, 0x85, 0x37, 0xFA, 0x21, 0x3D, 0x7F, 0x9F, 0x4D, 0x51, 0x58], None)]))
             = Returns (\<lparr>final = True, opcode = 1, frame_length = 5,
                          payload = [0x7F, 0x9F, 0x4D, 0x51, 0x58]\<rparr>, None)"
    by (simp add: run_simps)
  have s: "stream_of (NewReader [([0xF1, 0x85, 0x37, 0xFA, 0x21, 0x3D, 0x7F, 0x9F, 0x4D, 0x51, 0x58], None)])
             = 0xF1 # [0x85, 0x37, 0xFA, 0x21, 0x3D, 0x7F, 0x9F, 0x4D, 0x51, 0x58]"
    by (simp add: stream_of_def NewReader_def)
  have c: "(0xF1 :: byte) AND 0x8F = 0x81"
    by simp
  have x: "ReadByte (NewReader [([0xF1, 0x85, 0x37, 0xFA, 0x21, 0x3D, 0x7F, 0x9F, 0x4D, 0x51, 0x58], None)])
             = ((0xF1, None),
                \<lparr>buffered = [0x85, 0x37, 0xFA, 0x21, 0x3D, 0x7F, 0x9F, 0x4D, 0x51, 0x58],
                   pending = None, source = [], bufsize = 4096\<rparr>)"
    by (simp add: ReadByte_fills NewReader_def)
  have y: "ReadByte (NewReader [([0x81, 0x85, 0x37, 0xFA, 0x21, 0x3D, 0x7F, 0x9F, 0x4D, 0x51, 0x58], None)])
             = ((0xF1 AND 0x8F, None),
                \<lparr>buffered = [0x85, 0x37, 0xFA, 0x21, 0x3D, 0x7F, 0x9F, 0x4D, 0x51, 0x58],
                   pending = None, source = [], bufsize = 4096\<rparr>)"
    by (simp add: ReadByte_fills NewReader_def)
  note t = parseFrame_first_byte
         [where buf = "NewReader [([0xF1, 0x85, 0x37, 0xFA, 0x21, 0x3D, 0x7F, 0x9F, 0x4D, 0x51, 0x58], None)]"
            and buf' = "NewReader [([0x81, 0x85, 0x37, 0xFA, 0x21, 0x3D, 0x7F, 0x9F, 0x4D, 0x51, 0x58], None)]"
            and ?b0.0 = "0xF1" and lim = 1024
            and s = "[0x85, 0x37, 0xFA, 0x21, 0x3D, 0x7F, 0x9F, 0x4D, 0x51, 0x58]"
            and f = "\<lparr>final = True, opcode = 1, frame_length = 5,
                          payload = [0x7F, 0x9F, 0x4D, 0x51, 0x58]\<rparr>"
            and ?r1.0 = "\<lparr>buffered = [0x85, 0x37, 0xFA, 0x21, 0x3D, 0x7F, 0x9F, 0x4D, 0x51, 0x58],
                   pending = None, source = [], bufsize = 4096\<rparr>"]
  from t s p have 1: "bit (0xF1 :: byte) 7 \<and> take_bit 4 (0xF1 :: byte) = 1"
    by simp
  from t x y have 2: "parseFrame 1024
         (NewReader [([0x81, 0x85, 0x37, 0xFA, 0x21, 0x3D, 0x7F, 0x9F, 0x4D, 0x51, 0x58], None)])
       = parseFrame 1024
           (NewReader [([0xF1, 0x85, 0x37, 0xFA, 0x21, 0x3D, 0x7F, 0x9F, 0x4D, 0x51, 0x58], None)])"
    by blast
  from p 1 c 2 show ?thesis
    by blast
qed

subsection \<open>The 64-bit extended length\<close>

text \<open>
  Claim C7 says that on a base length of 127 a 64-bit length with the high bit set makes
  \<^verbatim>\<open>parseFrame\<close> return a malformed-frame error. It does not hold: on the length
  \<open>2 ^ 63\<close> the program goes on to the masking key and to \<^verbatim>\<open>make\<close>, which panics,
  even with the largest bound an \<^verbatim>\<open>int\<close> of 64 bits allows.
\<close>

theorem parseFrame_length_127_counterexample:
  "parseFrame (2 ^ 63 - 1)
     (NewReader [([0x82, 0xFF, 0x80, 0x00, 0x00, 0x00, 0x00, 0x00, 0x00, 0x00, 0x37, 0xFA, 0x21, 0x3D],
                  None)])
     = (Panics MakesliceLenOutOfRange,
        \<lparr>buffered = [], pending = None, source = [], bufsize = 4096\<rparr>)"
  by (simp add: run_simps)

text \<open>
  Claim C7 as amended. On a base length of 127 \<^verbatim>\<open>parseFrame\<close> checks nothing about
  the high bit: the eight bytes the read obtains, read as a big-endian unsigned 64-bit
  integer, become the payload length in every case. Whenever a frame is returned, its
  \<open>length\<close> is that integer, which is then below \<open>2 ^ 63\<close>; with the high bit set no
  frame is returned.
\<close>

theorem parseFrame_length_127_unchecked:
  "wire_base_length b1 = 127 \<Longrightarrow>
     (buffered r2 = rest \<and> 8 \<le> length rest \<longrightarrow>
        parseFrame_length (ucast (b1 AND 0x7F)) r2
          = (Next (word_of_nat (big_endian (take 8 rest))), r2\<lparr>buffered := drop 8 rest\<rparr>))
     \<and> (Read (replicate 8 0) r2 = ((p, 8, None), r3) \<longrightarrow>
          parseFrame_length (ucast (b1 AND 0x7F)) r2 = (Next (word_of_nat (big_endian p)), r3))
     \<and> (stream_of buf = b0 # b1 # rest \<and> fst (parseFrame lim buf) = Returns (f, None) \<longrightarrow>
          unat (frame_length f) = big_endian (take 8 rest) \<and> big_endian (take 8 rest) < 2 ^ 63)
     \<and> (stream_of buf = b0 # b1 # rest \<and> 2 ^ 63 \<le> big_endian (take 8 rest) \<longrightarrow>
          fst (parseFrame lim buf) \<noteq> Returns (f, None))"
proof -
  assume b: "wire_base_length b1 = 127"
  then have e: "wire_ext_size b1 = 8" by (simp add: wire_ext_size_def)
  have 1: "parseFrame_length (ucast (b1 AND 0x7F)) r2
          = (Next (word_of_nat (big_endian (take 8 rest))), r2\<lparr>buffered := drop 8 rest\<rparr>)"
    if "buffered r2 = rest \<and> 8 \<le> length rest"
    using length_buffered [of b1 r2] that b e by (simp add: wire_length_def)
  have 2: "parseFrame_length (ucast (b1 AND 0x7F)) r2 = (Next (word_of_nat (big_endian p)), r3)"
    if r: "Read (replicate 8 0) r2 = ((p, 8, None), r3)"
  proof -
    from Read_spec(2,3) [OF r] have "length p = 8" by simp
    then have "Uint64 p = Returns (word_of_nat (big_endian p))"
      by (rule Uint64_8(1))
    with b r show ?thesis
      by (simp add: ucast_base_127 [THEN iffD2] parseFrame_length_def)
  qed
  have 3: "unat (frame_length f) = big_endian (take 8 rest) \<and> big_endian (take 8 rest) < 2 ^ 63"
    if "stream_of buf = b0 # b1 # rest \<and> fst (parseFrame lim buf) = Returns (f, None)"
  proof -
    from that have s: "stream_of buf = b0 # b1 # rest"
      and q: "fst (parseFrame lim buf) = Returns (f, None)" by simp_all
    note t = parseFrame_success [OF s q]
    from t(2) e have "8 \<le> length rest" by simp
    with b have a: "wire_length b1 rest = big_endian (take 8 rest)"
      by (simp add: wire_length_def)
    from t(5) have "unat (frame_length f) = wire_length b1 rest"
      by (simp add: unat_wire_length [OF t(4)])
    with t(4) a show ?thesis by simp
  qed
  from 1 2 3 show ?thesis
    by auto
qed

text \<open>
  The theorem at a masked binary frame with the 64-bit length 2, and at the length
  \<open>2 ^ 63\<close>.
\<close>

theorem parseFrame_length_127_unchecked_witness:
  "wire_base_length 0xFF = 127
   \<and> parseFrame_length (ucast (0xFF AND 0x7F :: byte))
         \<lparr>buffered = [0x00, 0x00, 0x00, 0x00, 0x00, 0x00, 0x00, 0x02, 0x37, 0xFA, 0x21, 0x3D, 0x7F, 0x9F],
            pending = None, source = [], bufsize = 4096\<rparr>
       = (Next 2, \<lparr>buffered = [0x37, 0xFA, 0x21, 0x3D, 0x7F, 0x9F],
                     pending = None, source = [], bufsize = 4096\<rparr>)
   \<and> fst (parseFrame 1024
         (NewReader [([0x82, 0xFF, 0x00, 0x00, 0x00, 0x00, 0x00, 0x00, 0x00, 0x02, 0x37, 0xFA, 0x21,
                       0x3D, 0x7F, 0x9F], None)]))
       = Returns (\<lparr>final = True, opcode = 2, frame_length = 2, payload = [0x7F, 0x9F]\<rparr>, None)
   \<and> big_endian [0x00, 0x00, 0x00, 0x00, 0x00, 0x00, 0x00, 0x02] = 2
   \<and> 2 ^ 63 \<le> big_endian [0x80, 0x00, 0x00, 0x00, 0x00, 0x00, 0x00, 0x00]
   \<and> fst (parseFrame (2 ^ 63 - 1)
         (NewReader [([0x82, 0xFF, 0x80, 0x00, 0x00, 0x00, 0x00, 0x00, 0x00, 0x00, 0x37, 0xFA, 0x21,
                       0x3D], None)]))
       \<noteq> Returns (frame_zero, None)"
proof -
  have b: "wire_base_length 0xFF = 127"
    by (simp add: wire_base_length_def)
  have p: "fst (parseFrame 1024
         (NewReader [([0x82, 0xFF, 0x00, 0x00, 0x00, 0x00, 0x00, 0x00, 0x00, 0x02, 0x37, 0xFA, 0x21,
                       0x3D, 0x7F, 0x9F], None)]))
       = Returns (\<lparr>final = True, opcode = 2, frame_length = 2, payload = [0x7F, 0x9F]\<rparr>, None)"
    by (simp add: run_simps)
  have u: "big_endian [0x00, 0x00, 0x00, 0x00, 0x00, 0x00, 0x00, 0x02] = 2"
    and h: "2 ^ 63 \<le> big_endian [0x80, 0x00, 0x00, 0x00, 0x00, 0x00, 0x00, 0x00]"
    by (simp_all add: big_endian_def)
  from parseFrame_length_127_unchecked
         [OF b, where ?r2.0 = "\<lparr>buffered = [0x00, 0x00, 0x00, 0x00, 0x00, 0x00, 0x00, 0x02, 0x37,
                                              0xFA, 0x21, 0x3D, 0x7F, 0x9F],
                                  pending = None, source = [], bufsize = 4096\<rparr>"
                and rest = "[0x00, 0x00, 0x00, 0x00, 0x00, 0x00, 0x00, 0x02, 0x37, 0xFA, 0x21, 0x3D,
                             0x7F, 0x9F]"]
  have 1: "parseFrame_length (ucast (0xFF AND 0x7F :: byte))
         \<lparr>buffered = [0x00, 0x00, 0x00, 0x00, 0x00, 0x00, 0x00, 0x02, 0x37, 0xFA, 0x21, 0x3D, 0x7F, 0x9F],
            pending = None, source = [], bufsize = 4096\<rparr>
       = (Next 2, \<lparr>buffered = [0x37, 0xFA, 0x21, 0x3D, 0x7F, 0x9F],
                     pending = None, source = [], bufsize = 4096\<rparr>)"
    by (simp add: u)
  from parseFrame_length_127_unchecked
         [OF b, where buf = "NewReader [([0x82, 0xFF, 0x80, 0x00, 0x00, 0x00, 0x00, 0x00, 0x00, 0x00,
                                          0x37, 0xFA, 0x21, 0x3D], None)]"
                and rest = "[0x80, 0x00, 0x00, 0x00, 0x00, 0x00, 0x00, 0x00, 0x37, 0xFA, 0x21, 0x3D]"
                and lim = "2 ^ 63 - 1" and ?b0.0 = "0x82" and f = frame_zero] h
  have 2: "fst (parseFrame (2 ^ 63 - 1)
         (NewReader [([0x82, 0xFF, 0x80, 0x00, 0x00, 0x00, 0x00, 0x00, 0x00, 0x00, 0x37, 0xFA, 0x21,
                       0x3D], None)]))
       \<noteq> Returns (frame_zero, None)"
    by (simp add: stream_of_def NewReader_def)
  from b 1 p u h 2 show ?thesis
    by blast
qed

section \<open>Properties of the handshake\<close>

subsection \<open>The sample of RFC 6455\<close>

lemma replicate_num: "replicate (numeral k) x = x # replicate (pred_numeral k) x"
  by (simp add: numeral_eq_Suc)

text \<open>
  The models of SHA-1 and of base64 on the examples of FIPS 180 and of RFC 4648, then on
  the key of RFC 6455 followed by the GUID.
\<close>

lemma sha1_abc:
  "sha1 (bytes_of ''abc'')
     = [0xA9, 0x99, 0x3E, 0x36, 0x47, 0x06, 0x81, 0x6A, 0xBA, 0x3E, 0x25, 0x71, 0x78, 0x50,
        0xC2, 0x6C, 0x9C, 0xD0, 0xD8, 0x9D]"
  by (simp add: sha1_def sha1_pad_def bytes_of_def be32_bytes_def
        be64_bytes_def expand.simps rotl32_def replicate_num blocks.simps block_def sha1_f_def
        sha1_k_def add32_def not32_def)

lemma base64_rfc4648:
  "EncodeToString (bytes_of ''f'') = ''Zg==''"
  "EncodeToString (bytes_of ''fo'') = ''Zm8=''"
  "EncodeToString (bytes_of ''foo'') = ''Zm9v''"
  "EncodeToString (bytes_of ''foobar'') = ''Zm9vYmFy''"
  by (simp_all add: bytes_of_def b64_char_def encodeStd_def)

lemma sha1_sample:
  "sha1 (bytes_of ''dGhlIHNhbXBsZSBub25jZQ==258EAFA5-E914-47DA-95CA-C5AB0DC85B11'')
     = [179, 122, 79, 44, 192, 98, 79, 22, 144, 246, 70, 6, 207, 56, 89, 69, 178, 190, 196, 234]"
  by (simp add: sha1_def sha1_pad_def bytes_of_def be32_bytes_def
        be64_bytes_def expand.simps rotl32_def replicate_num blocks.simps block_def sha1_f_def
        sha1_k_def add32_def not32_def)

lemma base64_sample:
  "EncodeToString [179, 122, 79, 44, 192, 98, 79, 22, 144, 246, 70, 6, 207, 56, 89, 69, 178, 190, 196, 234]
     = ''s3pPLMBiTxaQ9kYGzzhZRbK+xOo=''"
  by (simp add: b64_char_def encodeStd_def)

lemma accept_sample:
  "EncodeToString (sha1 (bytes_of (''dGhlIHNhbXBsZSBub25jZQ==''
                                      @ ''258EAFA5-E914-47DA-95CA-C5AB0DC85B11'')))
     = ''s3pPLMBiTxaQ9kYGzzhZRbK+xOo=''"
proof -
  have "''dGhlIHNhbXBsZSBub25jZQ=='' @ ''258EAFA5-E914-47DA-95CA-C5AB0DC85B11''
          = ''dGhlIHNhbXBsZSBub25jZQ==258EAFA5-E914-47DA-95CA-C5AB0DC85B11''"
    by simp
  then show ?thesis
    by (simp only: sha1_sample base64_sample)
qed

lemma length_sha1: "length (sha1 m) = 20"
  by (simp add: sha1_def be32_bytes_def split: prod.splits)

subsection \<open>The accept credential\<close>

text \<open>
  Claim C1. For a request whose \<^verbatim>\<open>Sec-WebSocket-Key\<close> is \<open>k\<close>, the credential the
  handler computes is the standard padded base64 encoding of the SHA-1 digest, of 20
  bytes, of the bytes of \<open>k\<close> followed by \<^verbatim>\<open>258EAFA5-E914-47DA-95CA-C5AB0DC85B11\<close>;
  for the key \<^verbatim>\<open>dGhlIHNhbXBsZSBub25jZQ==\<close> it is \<^verbatim>\<open>s3pPLMBiTxaQ9kYGzzhZRbK+xOo=\<close>.
  The response of either version of the handler carries this credential, and no other,
  as \<^verbatim>\<open>Sec-WebSocket-Accept\<close> exactly when the request passes the upgrade check and
  names no subprotocol (and, in the last version, the writer can be hijacked), that is,
  on the path that reaches the derivation.
\<close>

theorem accept_credential_derivation:
  "header (fst (handler lim newResponse r hj)) ''Sec-WebSocket-Accept''
     = (if (Get r ''Upgrade'' = ''websocket'' \<or> Get r ''Connection'' = ''Upgrade'')
           \<and> Values r ''Sec-WebSocket-Protocol'' = [] \<and> hj \<noteq> None
        then Some [EncodeToString (sha1 (bytes_of (Get r ''Sec-WebSocket-Key''
                                          @ ''258EAFA5-E914-47DA-95CA-C5AB0DC85B11'')))]
        else None)
   \<and> header (handler_main newResponse r) ''Sec-WebSocket-Accept''
     = (if (Get r ''Upgrade'' = ''websocket'' \<or> Get r ''Connection'' = ''Upgrade'')
           \<and> Values r ''Sec-WebSocket-Protocol'' = []
        then Some [EncodeToString (sha1 (bytes_of (Get r ''Sec-WebSocket-Key''
                                          @ ''258EAFA5-E914-47DA-95CA-C5AB0DC85B11'')))]
        else None)
   \<and> length (sha1 (bytes_of (Get r ''Sec-WebSocket-Key''
                              @ ''258EAFA5-E914-47DA-95CA-C5AB0DC85B11''))) = 20
   \<and> EncodeToString (sha1 (bytes_of (''dGhlIHNhbXBsZSBub25jZQ==''
                                      @ ''258EAFA5-E914-47DA-95CA-C5AB0DC85B11'')))
     = ''s3pPLMBiTxaQ9kYGzzhZRbK+xOo=''"
proof (intro conjI)
  show "header (fst (handler lim newResponse r hj)) ''Sec-WebSocket-Accept''
     = (if (Get r ''Upgrade'' = ''websocket'' \<or> Get r ''Connection'' = ''Upgrade'')
           \<and> Values r ''Sec-WebSocket-Protocol'' = [] \<and> hj \<noteq> None
        then Some [EncodeToString (sha1 (bytes_of (Get r ''Sec-WebSocket-Key''
                                          @ ''258EAFA5-E914-47DA-95CA-C5AB0DC85B11'')))]
        else None)"
    by (auto simp: handler_def acceptMagicGUID_def Set_def Del_def WriteHeader_def Error_def
          newResponse_def Let_def
          split: option.splits Hijack.splits outcome.splits prod.splits)
  show "header (handler_main newResponse r) ''Sec-WebSocket-Accept''
     = (if (Get r ''Upgrade'' = ''websocket'' \<or> Get r ''Connection'' = ''Upgrade'')
           \<and> Values r ''Sec-WebSocket-Protocol'' = []
        then Some [EncodeToString (sha1 (bytes_of (Get r ''Sec-WebSocket-Key''
                                          @ ''258EAFA5-E914-47DA-95CA-C5AB0DC85B11'')))]
        else None)"
    by (auto simp: handler_main_def acceptMagicGUID_def Set_def WriteHeader_def
          newResponse_def Let_def)
  show "length (sha1 (bytes_of (Get r ''Sec-WebSocket-Key''
                              @ ''258EAFA5-E914-47DA-95CA-C5AB0DC85B11''))) = 20"
    by (rule length_sha1)
  show "EncodeToString (sha1 (bytes_of (''dGhlIHNhbXBsZSBub25jZQ==''
                                      @ ''258EAFA5-E914-47DA-95CA-C5AB0DC85B11'')))
     = ''s3pPLMBiTxaQ9kYGzzhZRbK+xOo=''"
    by (rule accept_sample)
qed

text \<open>The theorem at the request of RFC 6455, through both versions of the handler.\<close>

theorem accept_credential_derivation_witness:
  "header (fst (handler 1024 newResponse
                  [''Upgrade'' \<mapsto> [''websocket''], ''Connection'' \<mapsto> [''Upgrade''],
                   ''Sec-WebSocket-Key'' \<mapsto> [''dGhlIHNhbXBsZSBub25jZQ=='']]
                  (Some (Hijacked (NewReader [])))))
     ''Sec-WebSocket-Accept'' = Some [''s3pPLMBiTxaQ9kYGzzhZRbK+xOo='']
   \<and> header (handler_main newResponse
                [''Upgrade'' \<mapsto> [''websocket''], ''Connection'' \<mapsto> [''Upgrade''],
                 ''Sec-WebSocket-Key'' \<mapsto> [''dGhlIHNhbXBsZSBub25jZQ=='']])
     ''Sec-WebSocket-Accept'' = Some [''s3pPLMBiTxaQ9kYGzzhZRbK+xOo='']"
  using accept_credential_derivation
          [of 1024 "[''Upgrade'' \<mapsto> [''websocket''], ''Connection'' \<mapsto> [''Upgrade''],
                     ''Sec-WebSocket-Key'' \<mapsto> [''dGhlIHNhbXBsZSBub25jZQ=='']]"
              "Some (Hijacked (NewReader []))"]
  by (simp add: Get_def Values_def)

subsection \<open>The upgrade check\<close>

text \<open>
  Claim C8. The handler answers 400 if and only if the request has neither an
  \<^verbatim>\<open>Upgrade\<close> header valued \<^verbatim>\<open>websocket\<close> nor a \<^verbatim>\<open>Connection\<close> header valued
  \<^verbatim>\<open>Upgrade\<close>: either of the two is enough to go on. Both versions of the handler.
\<close>

theorem handler_bad_request_iff:
  "(status (fst (handler lim newResponse r hj)) = Some 400)
     = (Get r ''Upgrade'' \<noteq> ''websocket'' \<and> Get r ''Connection'' \<noteq> ''Upgrade'')
   \<and> (status (handler_main newResponse r) = Some 400)
     = (Get r ''Upgrade'' \<noteq> ''websocket'' \<and> Get r ''Connection'' \<noteq> ''Upgrade'')"
  by (auto simp: handler_def handler_main_def WriteHeader_def Error_def newResponse_def Let_def
        StatusBadRequest_def StatusSwitchingProtocols_def StatusNotImplemented_def
        StatusInternalServerError_def
        split: option.splits Hijack.splits outcome.splits prod.splits)

text \<open>
  The theorem at a request with neither header, with \<^verbatim>\<open>Connection\<close> alone and with
  \<^verbatim>\<open>Upgrade\<close> alone.
\<close>

theorem handler_bad_request_iff_witness:
  "status (fst (handler 1024 newResponse Map.empty (Some (Hijacked (NewReader []))))) = Some 400
   \<and> status (fst (handler 1024 newResponse [''Connection'' \<mapsto> [''Upgrade'']]
                     (Some (Hijacked (NewReader []))))) \<noteq> Some 400
   \<and> status (fst (handler 1024 newResponse [''Upgrade'' \<mapsto> [''websocket'']]
                     (Some (Hijacked (NewReader []))))) \<noteq> Some 400
   \<and> status (handler_main newResponse Map.empty) = Some 400
   \<and> status (handler_main newResponse [''Connection'' \<mapsto> [''Upgrade'']]) \<noteq> Some 400
   \<and> status (handler_main newResponse [''Upgrade'' \<mapsto> [''websocket'']]) \<noteq> Some 400"
  using handler_bad_request_iff [of 1024 Map.empty "Some (Hijacked (NewReader []))"]
        handler_bad_request_iff [of 1024 "[''Connection'' \<mapsto> [''Upgrade'']]" "Some (Hijacked (NewReader []))"]
        handler_bad_request_iff [of 1024 "[''Upgrade'' \<mapsto> [''websocket'']]" "Some (Hijacked (NewReader []))"]
  by (simp add: Get_def)

subsection \<open>A request that names a subprotocol\<close>

text \<open>
  Claim C2 says that a request that passes the upgrade check and names subprotocols is
  answered by 101 with \<^verbatim>\<open>Upgrade\<close>, \<^verbatim>\<open>Connection\<close>, \<^verbatim>\<open>Sec-WebSocket-Accept\<close> and
  the first subprotocol. For every such request, both versions of the handler set
  \<^verbatim>\<open>Sec-WebSocket-Protocol\<close> to the first subprotocol and return at once: the
  response has that one header, no status written by the handler and no credential, and
  the connection is not taken over.
\<close>

theorem handler_subprotocol_returns_early:
  "Get r ''Upgrade'' = ''websocket'' \<or> Get r ''Connection'' = ''Upgrade'' \<Longrightarrow>
   Values r ''Sec-WebSocket-Protocol'' = p # ps \<Longrightarrow>
     fst (handler lim newResponse r hj)
       = \<lparr>status = None, header = [''Sec-WebSocket-Protocol'' \<mapsto> [p]], body = []\<rparr>
     \<and> snd (handler lim newResponse r hj) = Returns None
     \<and> handler_main newResponse r
       = \<lparr>status = None, header = [''Sec-WebSocket-Protocol'' \<mapsto> [p]], body = []\<rparr>"
proof -
  assume u: "Get r ''Upgrade'' = ''websocket'' \<or> Get r ''Connection'' = ''Upgrade''"
    and v: "Values r ''Sec-WebSocket-Protocol'' = p # ps"
  have "handler lim newResponse r hj
          = (\<lparr>status = None, header = [''Sec-WebSocket-Protocol'' \<mapsto> [p]], body = []\<rparr>,
             Returns None)"
    using u v by (auto simp: handler_def Set_def newResponse_def)
  moreover have "handler_main newResponse r
          = \<lparr>status = None, header = [''Sec-WebSocket-Protocol'' \<mapsto> [p]], body = []\<rparr>"
    using u v by (auto simp: handler_main_def Set_def newResponse_def)
  ultimately show ?thesis
    by simp
qed

text \<open>
  The theorem at the request of RFC 6455 with two \<^verbatim>\<open>Sec-WebSocket-Protocol\<close> lines,
  \<^verbatim>\<open>chat\<close> and \<^verbatim>\<open>superchat\<close>, on a connection that has a frame ready.
\<close>

theorem handler_subprotocol_returns_early_witness:
  "fst (handler 1024 newResponse
          [''Upgrade'' \<mapsto> [''websocket''], ''Connection'' \<mapsto> [''Upgrade''],
           ''Sec-WebSocket-Key'' \<mapsto> [''dGhlIHNhbXBsZSBub25jZQ==''],
           ''Sec-WebSocket-Protocol'' \<mapsto> [''chat'', ''superchat'']]
          (Some (Hijacked (NewReader [([0x81, 0x85, 0x37, 0xFA, 0x21, 0x3D, 0x7F, 0x9F, 0x4D, 0x51, 0x58], None)]))))
     = \<lparr>status = None, header = [''Sec-WebSocket-Protocol'' \<mapsto> [''chat'']], body = []\<rparr>
   \<and> handler_main newResponse
          [''Upgrade'' \<mapsto> [''websocket''], ''Connection'' \<mapsto> [''Upgrade''],
           ''Sec-WebSocket-Key'' \<mapsto> [''dGhlIHNhbXBsZSBub25jZQ==''],
           ''Sec-WebSocket-Protocol'' \<mapsto> [''chat'', ''superchat'']]
     = \<lparr>status = None, header = [''Sec-WebSocket-Protocol'' \<mapsto> [''chat'']], body = []\<rparr>"
  using handler_subprotocol_returns_early
          [of "[''Upgrade'' \<mapsto> [''websocket''], ''Connection'' \<mapsto> [''Upgrade''],
                ''Sec-WebSocket-Key'' \<mapsto> [''dGhlIHNhbXBsZSBub25jZQ==''],
                ''Sec-WebSocket-Protocol'' \<mapsto> [''chat'', ''superchat'']]"
              "''chat''" "[''superchat'']" 1024
              "Some (Hijacked (NewReader [([0x81, 0x85, 0x37, 0xFA, 0x21, 0x3D, 0x7F, 0x9F, 0x4D, 0x51, 0x58], None)]))"]
  by (simp add: Get_def Values_def)

end
